theory Spec2Isabelle
  imports Main "HOL-Library.AList"
begin

section \<open>Data model of \<open>app/services/model_service.py\<close>\<close>

text \<open>
  The service object holds two Python dictionaries. Python dictionaries keep their keys in
  insertion order, an assignment to an existing key keeps its position, and the listing
  endpoint enumerates \<open>available_models.items()\<close>; both dictionaries are therefore
  association lists, written with \<open>AList.update\<close> (assignment), \<open>AList.delete\<close>
  (\<open>del\<close>) and \<open>map_of\<close> (lookup, \<open>None\<close> where Python raises \<open>KeyError\<close>).

  File names, paths and model names are \<open>string\<close>s. Prompts and generated texts are
  Python \<open>str\<close> values whose \<open>split()\<close> depends on Unicode white space, so they are
  lists of code points. Objects produced by the machine-learning libraries (models,
  tokenizers, sessions, pipelines, tensors) are opaque values of a type \<open>'obj\<close>.
\<close>

type_synonym pystr = "nat list"
type_synonym bytes = "char list"

record model_info =
  path :: string
  mtype :: string
  loaded :: bool

type_synonym 'obj handle = "(string \<times> 'obj) list"

text \<open>The directory tree below \<open>model_dir\<close>: a node is a regular file or a directory
  whose entries are listed in the order \<open>os.scandir\<close> reports them.\<close>

datatype node = File | Dir "(string \<times> node) list"

text \<open>Messages written through \<open>logger\<close>, one constructor per call site.\<close>

datatype log_record =
    Info_scanning string
  | Info_created_model_directory string
  | Info_found_transformers string string
  | Info_found_onnx string string
  | Info_found_stable_diffusion string string
  | Error_model_not_found string
  | Info_already_loaded string
  | Info_loaded string
  | Error_load_failed string
  | Error_model_not_loaded string
  | Info_unloaded string
  | Error_unload_failed string
  | Error_not_text_model string
  | Error_text_generation_failed string
  | Error_not_image_model string
  | Error_image_generation_failed string
  | Error_not_onnx_model string
  | Error_required_input_missing string
  | Error_onnx_inference_failed string

text \<open>Calls into the machine-learning libraries, in the order they are made.\<close>

datatype backend_call =
    AutoModelForCausalLM_from_pretrained string
  | AutoTokenizer_from_pretrained string
  | InferenceSession string
  | StableDiffusionPipeline_from_pretrained string
  | Pipeline_to
  | Text_generate string
  | Pipeline_call string
  | Session_run string

text \<open>
  The service object (\<open>model_dir\<close>, \<open>loaded_models\<close>, \<open>available_models\<close>) together with
  what it acts on: \<open>fs\<close> is what exists at \<open>model_dir\<close> (\<open>None\<close> when
  \<open>os.path.exists\<close> is false), \<open>creatable\<close> tells whether the environment lets
  \<open>os.makedirs\<close> create a directory there (parent writable, no path component a regular
  file), \<open>log\<close> and \<open>calls\<close> are the records written and the library calls made so far.
\<close>

record 'obj state =
  model_dir :: string
  loaded_models :: "(string \<times> 'obj handle) list"
  available_models :: "(string \<times> model_info) list"
  fs :: "node option"
  creatable :: bool
  log :: "log_record list"
  calls :: "backend_call list"

text \<open>
  The libraries behind the service. A result \<open>None\<close> (or \<open>False\<close>) stands for the call
  raising an exception. \<open>text_generation\<close> is the body of the \<open>try\<close> block of
  \<open>generate_text\<close> (tokenize, move to the accelerator, generate, decode),
  \<open>image_generation\<close> that of \<open>generate_image\<close> (run the pipeline, encode as PNG), and
  \<open>free_memory\<close> is \<open>gc.collect(); torch.cuda.empty_cache()\<close>. Each call of the service
  receives the backend it runs against, so two calls may see different outcomes.
\<close>

record 'obj backend =
  causal_lm_from_pretrained :: "string \<Rightarrow> 'obj option"
  tokenizer_from_pretrained :: "string \<Rightarrow> 'obj option"
  inference_session :: "string \<Rightarrow> 'obj option"
  sd_from_pretrained :: "string \<Rightarrow> 'obj option"
  pipeline_to :: "'obj \<Rightarrow> bool"
  text_generation :: "'obj \<Rightarrow> 'obj \<Rightarrow> pystr \<Rightarrow> int \<Rightarrow> pystr option"
  image_generation :: "'obj \<Rightarrow> pystr \<Rightarrow> bytes option"
  session_inputs :: "'obj \<Rightarrow> string list"
  session_outputs :: "'obj \<Rightarrow> string list"
  session_run :: "'obj \<Rightarrow> (string \<times> 'obj) list \<Rightarrow> 'obj list option"
  free_memory :: bool

definition logger :: "log_record \<Rightarrow> 'obj state \<Rightarrow> 'obj state" where
  "logger r s = s\<lparr>log := log s @ [r]\<rparr>"

definition called :: "backend_call \<Rightarrow> 'obj state \<Rightarrow> 'obj state" where
  "called c s = s\<lparr>calls := calls s @ [c]\<rparr>"

section \<open>Loading and unloading\<close>

text \<open>
  The \<open>try\<close> block of \<open>load_model\<close> up to the assignment of the \<open>loaded\<close> flag.
  \<open>Inl\<close> is the state in which an exception left the block, \<open>Inr\<close> the state in which
  the block fell through to the flag assignment. A type tag that is none of the three
  known ones matches no branch and falls through.
\<close>

definition load_backend ::
  "'obj backend \<Rightarrow> string \<Rightarrow> string \<Rightarrow> string \<Rightarrow> 'obj state \<Rightarrow> 'obj state + 'obj state" where
  "load_backend be model_name model_path model_type s =
    (if model_type = ''transformers'' then
       (let s1 = called (AutoModelForCausalLM_from_pretrained model_path) s in
        case causal_lm_from_pretrained be model_path of
          None \<Rightarrow> Inl s1
        | Some model \<Rightarrow>
            (let s2 = called (AutoTokenizer_from_pretrained model_path) s1 in
             case tokenizer_from_pretrained be model_path of
               None \<Rightarrow> Inl s2
             | Some tokenizer \<Rightarrow>
                 Inr (s2\<lparr>loaded_models := AList.update model_name
                        [(''model'', model), (''tokenizer'', tokenizer)] (loaded_models s2)\<rparr>)))
     else if model_type = ''onnx'' then
       (let s1 = called (InferenceSession model_path) s in
        case inference_session be model_path of
          None \<Rightarrow> Inl s1
        | Some session \<Rightarrow>
            Inr (s1\<lparr>loaded_models := AList.update model_name
                   [(''session'', session)] (loaded_models s1)\<rparr>))
     else if model_type = ''stable-diffusion'' then
       (let s1 = called (StableDiffusionPipeline_from_pretrained model_path) s in
        case sd_from_pretrained be model_path of
          None \<Rightarrow> Inl s1
        | Some pipeline \<Rightarrow>
            (let s2 = called Pipeline_to s1 in
             if pipeline_to be pipeline then
               Inr (s2\<lparr>loaded_models := AList.update model_name
                      [(''pipeline'', pipeline)] (loaded_models s2)\<rparr>)
             else Inl s2))
     else Inr s)"

text \<open>The first library call that \<open>load_model\<close> makes for a model of a known type.\<close>

definition loader_call :: "string \<Rightarrow> string \<Rightarrow> backend_call" where
  "loader_call model_type model_path =
     (if model_type = ''transformers'' then AutoModelForCausalLM_from_pretrained model_path
      else if model_type = ''onnx'' then InferenceSession model_path
      else StableDiffusionPipeline_from_pretrained model_path)"

definition set_loaded :: "string \<Rightarrow> bool \<Rightarrow> 'obj state \<Rightarrow> 'obj state" where
  "set_loaded model_name b s =
     s\<lparr>available_models :=
         AList.map_entry model_name (\<lambda>info. info\<lparr>loaded := b\<rparr>) (available_models s)\<rparr>"

definition load_model :: "'obj backend \<Rightarrow> string \<Rightarrow> 'obj state \<Rightarrow> bool \<times> 'obj state" where
  "load_model be model_name s =
    (case map_of (available_models s) model_name of
       None \<Rightarrow> (False, logger (Error_model_not_found model_name) s)
     | Some model_info \<Rightarrow>
         if loaded model_info then (True, logger (Info_already_loaded model_name) s)
         else
           (case load_backend be model_name (path model_info) (mtype model_info) s of
              Inl s' \<Rightarrow> (False, logger (Error_load_failed model_name) s')
            | Inr s' \<Rightarrow> (True, logger (Info_loaded model_name) (set_loaded model_name True s'))))"

text \<open>
  \<open>load_model\<close> in two steps, for callers whose executions interleave: \<open>load_check\<close> is
  the part up to the \<open>try\<close> block (lines 77 to 87: the two early returns, or the path and
  type read from the registry), \<open>load_commit\<close> the \<open>try\<close> block itself (lines 89 to
  123) run with what the check read.
\<close>

datatype checked = Returned bool | Proceed string string

definition load_check :: "string \<Rightarrow> 'obj state \<Rightarrow> checked \<times> 'obj state" where
  "load_check model_name s =
    (case map_of (available_models s) model_name of
       None \<Rightarrow> (Returned False, logger (Error_model_not_found model_name) s)
     | Some model_info \<Rightarrow>
         if loaded model_info then (Returned True, logger (Info_already_loaded model_name) s)
         else (Proceed (path model_info) (mtype model_info), s))"

definition load_commit ::
  "'obj backend \<Rightarrow> string \<Rightarrow> checked \<Rightarrow> 'obj state \<Rightarrow> bool \<times> 'obj state" where
  "load_commit be model_name c s =
    (case c of
       Returned b \<Rightarrow> (b, s)
     | Proceed model_path model_type \<Rightarrow>
         (case load_backend be model_name model_path model_type s of
            Inl s' \<Rightarrow> (False, logger (Error_load_failed model_name) s')
          | Inr s' \<Rightarrow> (True, logger (Info_loaded model_name) (set_loaded model_name True s'))))"

text \<open>
  Two callers of \<open>load_model\<close> for one name, each with the backend behaviour it meets, in
  the schedule where both pass the flag test before either enters the \<open>try\<close> block. The
  source holds no lock and its request handlers are plain functions that the server runs
  on worker threads, so nothing excludes this schedule.
\<close>

definition racing_loads ::
  "'obj backend \<Rightarrow> 'obj backend \<Rightarrow> string \<Rightarrow> 'obj state \<Rightarrow> (bool \<times> bool) \<times> 'obj state" where
  "racing_loads be_a be_b model_name s =
    (case load_check model_name s of (c_a, s1) \<Rightarrow>
     case load_check model_name s1 of (c_b, s2) \<Rightarrow>
     case load_commit be_a model_name c_a s2 of (r_a, s3) \<Rightarrow>
     case load_commit be_b model_name c_b s3 of (r_b, s4) \<Rightarrow>
       ((r_a, r_b), s4))"

text \<open>Callers of \<open>load_model\<close> for one name that run one after another.\<close>

fun sequential_loads ::
  "'obj backend list \<Rightarrow> string \<Rightarrow> 'obj state \<Rightarrow> bool list \<times> 'obj state" where
  "sequential_loads [] model_name s = ([], s)"
| "sequential_loads (be # bes) model_name s =
     (case load_model be model_name s of (r, s1) \<Rightarrow>
      case sequential_loads bes model_name s1 of (rs, s2) \<Rightarrow> (r # rs, s2))"

text \<open>
  Whether the library calls of the \<open>try\<close> block raise for a model of the given type and
  path: for a text model when either \<open>from_pretrained\<close> raises, for a tensor graph when
  the session cannot be created, for a diffusion model when \<open>from_pretrained\<close> or the
  move to the device raises.
\<close>

definition load_raises :: "'obj backend \<Rightarrow> string \<Rightarrow> string \<Rightarrow> bool" where
  "load_raises be model_type model_path =
     (if model_type = ''transformers'' then
        (case causal_lm_from_pretrained be model_path of
           None \<Rightarrow> True
         | Some model \<Rightarrow>
             (case tokenizer_from_pretrained be model_path of
                None \<Rightarrow> True | Some tokenizer \<Rightarrow> False))
      else if model_type = ''onnx'' then
        (case inference_session be model_path of None \<Rightarrow> True | Some session \<Rightarrow> False)
      else if model_type = ''stable-diffusion'' then
        (case sd_from_pretrained be model_path of
           None \<Rightarrow> True | Some pipeline \<Rightarrow> \<not> pipeline_to be pipeline)
      else False)"

text \<open>
  \<open>unload_model\<close>: the handle is deleted first; the flag assignment raises \<open>KeyError\<close>
  when the registry has no entry of that name, and the \<open>except\<close> clause turns that, or a
  failure while freeing memory, into the result \<open>False\<close> with the handle already gone.
\<close>

definition unload_model :: "'obj backend \<Rightarrow> string \<Rightarrow> 'obj state \<Rightarrow> bool \<times> 'obj state" where
  "unload_model be model_name s =
    (case map_of (loaded_models s) model_name of
       None \<Rightarrow> (False, logger (Error_model_not_loaded model_name) s)
     | Some h \<Rightarrow>
         (let s1 = s\<lparr>loaded_models := AList.delete model_name (loaded_models s)\<rparr> in
          case map_of (available_models s1) model_name of
            None \<Rightarrow> (False, logger (Error_unload_failed model_name) s1)
          | Some info \<Rightarrow>
              (let s2 = set_loaded model_name False s1 in
               if free_memory be then (True, logger (Info_unloaded model_name) s2)
               else (False, logger (Error_unload_failed model_name) s2))))"

section \<open>Dispatch\<close>

text \<open>
  The three dispatch methods return \<open>None\<close> for every handled failure. The registry lookup
  after the load sits outside the \<open>try\<close> block, so a \<open>KeyError\<close> there leaves the method
  as an exception: the result is \<open>Inl KeyError\<close> then, and \<open>Inr\<close> of the returned value
  otherwise.
\<close>

datatype py_exception = KeyError | NameError | OSError

text \<open>The common prefix of the three methods:
  \<^verbatim>\<open>if model_name not in self.loaded_models: if not self.load_model(model_name): return None\<close>.
  The first component is \<open>False\<close> when the method returns \<open>None\<close> there.\<close>

definition load_if_absent :: "'obj backend \<Rightarrow> string \<Rightarrow> 'obj state \<Rightarrow> bool \<times> 'obj state" where
  "load_if_absent be model_name s =
     (if map_of (loaded_models s) model_name = None then load_model be model_name s
      else (True, s))"

definition generate_text ::
  "'obj backend \<Rightarrow> string \<Rightarrow> pystr \<Rightarrow> int \<Rightarrow> 'obj state
     \<Rightarrow> (py_exception + pystr option) \<times> 'obj state" where
  "generate_text be model_name prompt max_tokens s =
    (case load_if_absent be model_name s of
       (False, s1) \<Rightarrow> (Inr None, s1)
     | (True, s1) \<Rightarrow>
        (case map_of (available_models s1) model_name of
           None \<Rightarrow> (Inl KeyError, s1)
         | Some model_info \<Rightarrow>
            if mtype model_info \<noteq> ''transformers'' then
              (Inr None, logger (Error_not_text_model model_name) s1)
            else
              (case map_of (loaded_models s1) model_name of
                 None \<Rightarrow> (Inr None, logger (Error_text_generation_failed model_name) s1)
               | Some model_data \<Rightarrow>
                  (case (map_of model_data ''model'', map_of model_data ''tokenizer'') of
                     (Some model, Some tokenizer) \<Rightarrow>
                       (let s2 = called (Text_generate model_name) s1 in
                        case text_generation be model tokenizer prompt max_tokens of
                          None \<Rightarrow> (Inr None, logger (Error_text_generation_failed model_name) s2)
                        | Some response \<Rightarrow> (Inr (Some response), s2))
                   | _ \<Rightarrow> (Inr None, logger (Error_text_generation_failed model_name) s1)))))"

definition generate_image ::
  "'obj backend \<Rightarrow> string \<Rightarrow> pystr \<Rightarrow> 'obj state
     \<Rightarrow> (py_exception + bytes option) \<times> 'obj state" where
  "generate_image be model_name prompt s =
    (case load_if_absent be model_name s of
       (False, s1) \<Rightarrow> (Inr None, s1)
     | (True, s1) \<Rightarrow>
        (case map_of (available_models s1) model_name of
           None \<Rightarrow> (Inl KeyError, s1)
         | Some model_info \<Rightarrow>
            if mtype model_info \<noteq> ''stable-diffusion'' then
              (Inr None, logger (Error_not_image_model model_name) s1)
            else
              (case map_of (loaded_models s1) model_name of
                 None \<Rightarrow> (Inr None, logger (Error_image_generation_failed model_name) s1)
               | Some model_data \<Rightarrow>
                  (case map_of model_data ''pipeline'' of
                     None \<Rightarrow> (Inr None, logger (Error_image_generation_failed model_name) s1)
                   | Some pipeline \<Rightarrow>
                       (let s2 = called (Pipeline_call model_name) s1 in
                        case image_generation be pipeline prompt of
                          None \<Rightarrow> (Inr None, logger (Error_image_generation_failed model_name) s2)
                        | Some image_bytes \<Rightarrow> (Inr (Some image_bytes), s2))))))"

text \<open>
  \<open>run_onnx_model\<close>. \<open>prepare_inputs\<close> is the loop over the session's input names: it
  stops with \<open>Inl name\<close> at the first name the caller did not supply. \<open>prepare_outputs\<close>
  is the dictionary comprehension over \<open>enumerate(output_names)\<close>; \<open>outputs[i]\<close> raises
  \<open>IndexError\<close> (\<open>None\<close>) when the run returned fewer tensors than there are names.
\<close>

fun prepare_inputs ::
  "string list \<Rightarrow> (string \<times> 'obj) list \<Rightarrow> (string \<times> 'obj) list
     \<Rightarrow> string + (string \<times> 'obj) list" where
  "prepare_inputs [] inputs onnx_inputs = Inr onnx_inputs"
| "prepare_inputs (name # input_names) inputs onnx_inputs =
     (case map_of inputs name of
        Some v \<Rightarrow> prepare_inputs input_names inputs (AList.update name v onnx_inputs)
      | None \<Rightarrow> Inl name)"

fun prepare_outputs ::
  "(nat \<times> string) list \<Rightarrow> 'obj list \<Rightarrow> (string \<times> 'obj) list
     \<Rightarrow> (string \<times> 'obj) list option" where
  "prepare_outputs [] outputs result = Some result"
| "prepare_outputs ((i, name) # rest) outputs result =
     (if i < length outputs
      then prepare_outputs rest outputs (AList.update name (outputs ! i) result)
      else None)"

definition run_onnx_model ::
  "'obj backend \<Rightarrow> string \<Rightarrow> (string \<times> 'obj) list \<Rightarrow> 'obj state
     \<Rightarrow> (py_exception + (string \<times> 'obj) list option) \<times> 'obj state" where
  "run_onnx_model be model_name inputs s =
    (case load_if_absent be model_name s of
       (False, s1) \<Rightarrow> (Inr None, s1)
     | (True, s1) \<Rightarrow>
        (case map_of (available_models s1) model_name of
           None \<Rightarrow> (Inl KeyError, s1)
         | Some model_info \<Rightarrow>
            if mtype model_info \<noteq> ''onnx'' then
              (Inr None, logger (Error_not_onnx_model model_name) s1)
            else
              (case map_of (loaded_models s1) model_name of
                 None \<Rightarrow> (Inr None, logger (Error_onnx_inference_failed model_name) s1)
               | Some model_data \<Rightarrow>
                  (case map_of model_data ''session'' of
                     None \<Rightarrow> (Inr None, logger (Error_onnx_inference_failed model_name) s1)
                   | Some session \<Rightarrow>
                      (case prepare_inputs (session_inputs be session) inputs [] of
                         Inl name \<Rightarrow> (Inr None, logger (Error_required_input_missing name) s1)
                       | Inr onnx_inputs \<Rightarrow>
                          (let s2 = called (Session_run model_name) s1 in
                           case session_run be session onnx_inputs of
                             None \<Rightarrow>
                               (Inr None, logger (Error_onnx_inference_failed model_name) s2)
                           | Some outputs \<Rightarrow>
                              (case prepare_outputs (enumerate 0 (session_outputs be session))
                                      outputs [] of
                                 None \<Rightarrow>
                                   (Inr None, logger (Error_onnx_inference_failed model_name) s2)
                               | Some result \<Rightarrow> (Inr (Some result), s2))))))))"

section \<open>Scanning the model directory\<close>

text \<open>The functions of \<open>posixpath\<close> and \<open>str\<close> that \<open>scan_models\<close> uses.
  \<open>rfind\<close> is \<open>str.rfind\<close> for a single character, \<open>-1\<close> when it does not occur.\<close>

definition rfind :: "char \<Rightarrow> string \<Rightarrow> int" where
  "rfind c p = (case filter (\<lambda>i. p ! i = c) (rev [0..<length p]) of
                  [] \<Rightarrow> - 1 | i # _ \<Rightarrow> int i)"

definition basename :: "string \<Rightarrow> string" where
  "basename p = drop (nat (rfind CHR ''/'' p + 1)) p"

definition endswith :: "string \<Rightarrow> string \<Rightarrow> bool" where
  "endswith p suffix =
     (length suffix \<le> length p \<and> drop (length p - length suffix) p = suffix)"

definition join :: "string \<Rightarrow> string \<Rightarrow> string" where
  "join a b =
     (if take 1 b = ''/'' then b
      else if a = [] \<or> endswith a ''/'' then a @ b
      else a @ ''/'' @ b)"

text \<open>\<open>splitext\<close>: the extension starts at the last dot of the last path component,
  unless only dots precede it there.\<close>

definition splitext :: "string \<Rightarrow> string \<times> string" where
  "splitext p =
     (let sepIndex = rfind CHR ''/'' p; dotIndex = rfind CHR ''.'' p in
      if dotIndex > sepIndex \<and>
         list_ex (\<lambda>k. p ! k \<noteq> CHR ''.'') [nat (sepIndex + 1)..<nat dotIndex]
      then (take (nat dotIndex) p, drop (nat dotIndex) p)
      else (p, []))"

text \<open>
  \<open>os.walk(d)\<close>, top-down, not following links: nothing for a path that is not a
  directory; otherwise the triple of the directory itself, then the walks of its
  subdirectories in listing order.
\<close>

definition dirnames :: "(string \<times> node) list \<Rightarrow> string list" where
  "dirnames es = map fst (filter (\<lambda>(n, c). c \<noteq> File) es)"

definition filenames :: "(string \<times> node) list \<Rightarrow> string list" where
  "filenames es = map fst (filter (\<lambda>(n, c). c = File) es)"

fun walk :: "string \<Rightarrow> node \<Rightarrow> (string \<times> string list \<times> string list) list"
  and walk_dirs :: "string \<Rightarrow> (string \<times> node) list \<Rightarrow> (string \<times> string list \<times> string list) list"
where
  "walk d File = []"
| "walk d (Dir es) = (d, dirnames es, filenames es) # walk_dirs d es"
| "walk_dirs d [] = []"
| "walk_dirs d ((n, c) # es) =
     (case c of File \<Rightarrow> [] | Dir _ \<Rightarrow> walk (join d n) c) @ walk_dirs d es"

definition register :: "string \<Rightarrow> string \<Rightarrow> string \<Rightarrow> 'obj state \<Rightarrow> 'obj state" where
  "register model_name model_path model_type s =
     s\<lparr>available_models :=
         AList.update model_name \<lparr>path = model_path, mtype = model_type, loaded = False\<rparr>
           (available_models s)\<rparr>"

definition scan_onnx_file :: "string \<Rightarrow> string \<Rightarrow> 'obj state \<Rightarrow> 'obj state" where
  "scan_onnx_file root file s =
     (if endswith file ''.onnx'' then
        (let model_path = join root file; model_name = fst (splitext file) in
         logger (Info_found_onnx model_name model_path)
           (register model_name model_path ''onnx'' s))
      else s)"

text \<open>The body of the loop over \<open>os.walk\<close>, for one triple.\<close>

definition scan_directory ::
  "string \<times> string list \<times> string list \<Rightarrow> 'obj state \<Rightarrow> 'obj state" where
  "scan_directory t s =
    (case t of (root, dirs, files) \<Rightarrow>
      (let s1 = (if ''config.json'' \<in> set files then
                   logger (Info_found_transformers (basename root) root)
                     (register (basename root) root ''transformers'' s)
                 else s);
           s2 = fold (scan_onnx_file root) files s1
       in if ''model_index.json'' \<in> set files then
            logger (Info_found_stable_diffusion (basename root) root)
              (register (basename root) root ''stable-diffusion'' s2)
          else s2))"

text \<open>
  \<open>scan_models\<close>. The first component is the exception that leaves the method, if any
  (an \<open>OSError\<close>; for the empty path its subclass \<open>FileNotFoundError\<close>); the second is
  the state it leaves. A missing directory is created (empty) and the
  method returns at once. The call of \<open>os.makedirs\<close> is not inside a \<open>try\<close> block: when
  it raises, as it always does for the empty path and otherwise when the environment
  does not let the directory be created, the exception leaves \<open>scan_models\<close> (and the
  constructor) with nothing created and nothing more logged.
\<close>

definition scan_models :: "'obj state \<Rightarrow> py_exception option \<times> 'obj state" where
  "scan_models s =
    (let s0 = logger (Info_scanning (model_dir s)) s in
     case fs s0 of
       None \<Rightarrow>
         if model_dir s0 \<noteq> [] \<and> creatable s0 then
           (None, logger (Info_created_model_directory (model_dir s0))
                    (s0\<lparr>fs := Some (Dir [])\<rparr>))
         else (Some OSError, s0)
     | Some tree \<Rightarrow> (None, fold scan_directory (walk (model_dir s0) tree) s0))"

text \<open>\<open>ModelService.__init__\<close>, given the directory name and what is on disk there:
  \<open>fresh\<close> is the object before the constructor's call of \<open>scan_models\<close>, in an
  environment that lets the directory be created (one that does not is
  \<open>(fresh dir disk)\<lparr>creatable := False\<rparr>\<close>), and \<open>init\<close> is the state that call leaves.\<close>

definition fresh :: "string \<Rightarrow> node option \<Rightarrow> 'obj state" where
  "fresh dir disk =
     \<lparr>model_dir = dir, loaded_models = [], available_models = [],
      fs = disk, creatable = True, log = [], calls = []\<rparr>"

definition init :: "string \<Rightarrow> node option \<Rightarrow> 'obj state" where
  "init dir disk = snd (scan_models (fresh dir disk))"

record listing =
  listing_name :: string
  listing_type :: string
  listing_loaded :: bool

definition get_available_models :: "'obj state \<Rightarrow> listing list" where
  "get_available_models s =
     map (\<lambda>(name, info).
            \<lparr>listing_name = name, listing_type = mtype info, listing_loaded = loaded info\<rparr>)
         (available_models s)"

section \<open>The endpoints of \<open>app/api/endpoints/models.py\<close>\<close>

text \<open>
  \<open>str.split()\<close> without arguments: skip white space, take the run of other characters
  that follows, repeat. \<open>isspace\<close> is the set of white-space code points of CPython 3
  (\<open>_Py_ascii_whitespace\<close> below 128, \<open>_PyUnicode_IsWhitespace\<close> above).
\<close>

definition isspace :: "nat \<Rightarrow> bool" where
  "isspace c =
     ((0x09 \<le> c \<and> c \<le> 0x0D) \<or> (0x1C \<le> c \<and> c \<le> 0x20) \<or> c = 0x85 \<or> c = 0xA0 \<or>
      c = 0x1680 \<or> (0x2000 \<le> c \<and> c \<le> 0x200A) \<or> c = 0x2028 \<or> c = 0x2029 \<or>
      c = 0x202F \<or> c = 0x205F \<or> c = 0x3000)"

function py_split :: "pystr \<Rightarrow> pystr list" where
  "py_split s =
     (case dropWhile isspace s of
        [] \<Rightarrow> []
      | c # cs \<Rightarrow> (c # takeWhile (\<lambda>x. \<not> isspace x) cs)
                   # py_split (dropWhile (\<lambda>x. \<not> isspace x) cs))"
  by pat_completeness auto
termination
proof (relation "measure length")
  show "wf (measure length)" by simp
next
  fix s :: pystr and c cs
  assume d: "dropWhile isspace s = c # cs"
  have "length (dropWhile (\<lambda>x. \<not> isspace x) cs) \<le> length cs"
    by (rule length_dropWhile_le)
  also have "length cs < length (dropWhile isspace s)"
    by (simp add: d)
  also have "length (dropWhile isspace s) \<le> length s"
    by (rule length_dropWhile_le)
  finally show "(dropWhile (\<lambda>x. \<not> isspace x) cs, s) \<in> measure length"
    by simp
qed

declare py_split.simps [simp del]

text \<open>
  The count the specification names, stated on its own: the number of white-space
  delimited tokens of a text is the number of positions at which a character that is not
  white space follows white space or starts the text.
\<close>

fun token_starts :: "bool \<Rightarrow> pystr \<Rightarrow> nat" where
  "token_starts after_space [] = 0"
| "token_starts after_space (c # cs) =
     (if \<not> isspace c \<and> after_space then 1 else 0) + token_starts (isspace c) cs"

definition whitespace_token_count :: "pystr \<Rightarrow> nat" where
  "whitespace_token_count s = token_starts True s"

text \<open>
  The rows of the tables \<open>ai_models\<close> and \<open>usage_logs\<close> with the columns the endpoints
  read or write, the verified API key with its user, and the request and response
  schemas. The sampling parameters of a request are floating-point numbers that the
  endpoint only stores; their type is left open.
\<close>

record ai_model =
  ai_id :: int
  ai_name :: string
  ai_type :: string
  ai_is_active :: bool

record api_key =
  key_id :: int
  key_user_id :: int

record 'f text_generation_request =
  prompt :: pystr
  max_tokens :: int
  temperature :: 'f
  top_p :: 'f
  frequency_penalty :: 'f
  presence_penalty :: 'f

record 'f image_generation_request =
  image_prompt :: pystr
  width :: int
  height :: int
  num_inference_steps :: int
  guidance_scale :: 'f

record 'f usage_log =
  log_user_id :: int
  log_api_key_id :: int
  log_endpoint :: string
  log_model_id :: int
  log_tokens_used :: int
  log_request_data :: "'f text_generation_request"
  log_status_code :: int

record 'f db =
  ai_models :: "ai_model list"
  usage_logs :: "'f usage_log list"

record text_generation_response =
  response_text :: pystr
  tokens_used :: int
  response_model :: string

record image_generation_response =
  image_url :: string
  image_tokens_used :: int
  image_model :: string

datatype failure = HTTPException nat string | Uncaught py_exception

text \<open>\<open>db.query(AIModel).filter(name, is_active, type).first()\<close>\<close>

definition query_model :: "'f db \<Rightarrow> string \<Rightarrow> string \<Rightarrow> ai_model option" where
  "query_model d model_name t =
     find (\<lambda>m. ai_name m = model_name \<and> ai_is_active m \<and> ai_type m = t) (ai_models d)"

text \<open>Python truth value of an optional sequence: \<open>None\<close> and the empty sequence are false.\<close>

definition truthy :: "'a list option \<Rightarrow> bool" where
  "truthy v = (case v of None \<Rightarrow> False | Some xs \<Rightarrow> xs \<noteq> [])"

definition endpoint_generate_text ::
  "'obj backend \<Rightarrow> 'f text_generation_request \<Rightarrow> string \<Rightarrow> api_key \<Rightarrow> 'f db \<times> 'obj state
     \<Rightarrow> (failure + text_generation_response) \<times> 'f db \<times> 'obj state" where
  "endpoint_generate_text be request model_name key ds =
    (case ds of (d, s) \<Rightarrow>
      (case query_model d model_name ''text'' of
         None \<Rightarrow>
           (Inl (HTTPException 404
                  (''Text generation model '' @ [CHR 0x27] @ model_name @ [CHR 0x27]
                     @ '' not found'')), d, s)
       | Some m \<Rightarrow>
          (let has_subscription = True in
           if \<not> has_subscription then
             (Inl (HTTPException 402 ''Active subscription required for text generation''), d, s)
           else
             (case generate_text be model_name (prompt request) (max_tokens request) s of
                (Inl e, s') \<Rightarrow> (Inl (Uncaught e), d, s')
              | (Inr generated_text, s') \<Rightarrow>
                 if \<not> truthy generated_text then
                   (Inl (HTTPException 500 ''Text generation failed''), d, s')
                 else
                   (let tokens = int (length (py_split (prompt request)))
                                   + int (length (py_split (the generated_text)));
                        usage = \<lparr>log_user_id = key_user_id key, log_api_key_id = key_id key,
                                 log_endpoint = ''/api/models/text-generation'',
                                 log_model_id = ai_id m, log_tokens_used = tokens,
                                 log_request_data = request, log_status_code = 200\<rparr>
                    in (Inr \<lparr>response_text = the generated_text, tokens_used = tokens,
                             response_model = model_name\<rparr>,
                        d\<lparr>usage_logs := usage_logs d @ [usage]\<rparr>, s'))))))"

text \<open>
  The image endpoint. After a generation that produced bytes it creates \<open>static/images\<close>
  and then evaluates \<open>time.time()\<close>; the module never imports \<open>time\<close>, so the handler
  leaves there with \<open>NameError\<close> and the rest of its body is not reached.
\<close>

definition endpoint_generate_image ::
  "'obj backend \<Rightarrow> 'f image_generation_request \<Rightarrow> string \<Rightarrow> api_key \<Rightarrow> 'f db \<times> 'obj state
     \<Rightarrow> (failure + image_generation_response) \<times> 'f db \<times> 'obj state" where
  "endpoint_generate_image be request model_name key ds =
    (case ds of (d, s) \<Rightarrow>
      (case query_model d model_name ''image'' of
         None \<Rightarrow>
           (Inl (HTTPException 404
                  (''Image generation model '' @ [CHR 0x27] @ model_name @ [CHR 0x27]
                     @ '' not found'')), d, s)
       | Some m \<Rightarrow>
          (let has_subscription = True in
           if \<not> has_subscription then
             (Inl (HTTPException 402 ''Active subscription required for image generation''), d, s)
           else
             (case generate_image be model_name (image_prompt request) s of
                (Inl e, s') \<Rightarrow> (Inl (Uncaught e), d, s')
              | (Inr image_bytes, s') \<Rightarrow>
                 if \<not> truthy image_bytes then
                   (Inl (HTTPException 500 ''Image generation failed''), d, s')
                 else (Inl (Uncaught NameError), d, s')))))"

section \<open>Sequences of operations and the lifecycle invariant\<close>

text \<open>
  An operation on the service carries the backend behaviour it meets. \<open>Disk_becomes\<close>
  is a change of the model directory made from outside between two calls, and
  \<open>Creatable_becomes\<close> a change of whether it can be created. A \<open>scan_models\<close> that
  raises leaves the state it had reached.
\<close>

datatype 'obj operation =
    Scan_models
  | Load_model "'obj backend" string
  | Unload_model "'obj backend" string
  | Generate_text "'obj backend" string pystr int
  | Generate_image "'obj backend" string pystr
  | Run_onnx_model "'obj backend" string "(string \<times> 'obj) list"
  | Disk_becomes "node option"
  | Creatable_becomes bool

fun perform :: "'obj operation \<Rightarrow> 'obj state \<Rightarrow> 'obj state" where
  "perform Scan_models s = snd (scan_models s)"
| "perform (Load_model be n) s = snd (load_model be n s)"
| "perform (Unload_model be n) s = snd (unload_model be n s)"
| "perform (Generate_text be n p k) s = snd (generate_text be n p k s)"
| "perform (Generate_image be n p) s = snd (generate_image be n p s)"
| "perform (Run_onnx_model be n ins) s = snd (run_onnx_model be n ins s)"
| "perform (Disk_becomes disk) s = s\<lparr>fs := disk\<rparr>"
| "perform (Creatable_becomes b) s = s\<lparr>creatable := b\<rparr>"

definition run :: "'obj operation list \<Rightarrow> 'obj state \<Rightarrow> 'obj state" where
  "run ops s = fold perform ops s"

fun is_scan :: "'obj operation \<Rightarrow> bool" where
  "is_scan Scan_models = True"
| "is_scan _ = False"

text \<open>A sequence of operations in which every \<open>scan_models\<close> runs while the service
  holds no handle.\<close>

fun scans_while_unloaded :: "'obj operation list \<Rightarrow> 'obj state \<Rightarrow> bool" where
  "scans_while_unloaded [] s = True"
| "scans_while_unloaded (x # ops) s =
     ((is_scan x \<longrightarrow> loaded_models s = []) \<and> scans_while_unloaded ops (perform x s))"

definition loaded_flag :: "'obj state \<Rightarrow> string \<Rightarrow> bool" where
  "loaded_flag s n = (case map_of (available_models s) n of
                        None \<Rightarrow> False | Some info \<Rightarrow> loaded info)"

definition has_handle :: "'obj state \<Rightarrow> string \<Rightarrow> bool" where
  "has_handle s n = (map_of (loaded_models s) n \<noteq> None)"

text \<open>The flag of a name agrees with the presence of its handle, and \<open>loaded_models\<close>
  lists no name twice. A name that is a key of neither dictionary has neither.\<close>

definition lifecycle_invariant :: "'obj state \<Rightarrow> bool" where
  "lifecycle_invariant s =
     ((\<forall>n \<in> set (map fst (available_models s) @ map fst (loaded_models s)).
          loaded_flag s n = has_handle s n)
      \<and> distinct (map fst (loaded_models s)))"

text \<open>Every registered type tag is one of the three that \<open>load_model\<close> knows.\<close>

definition known_types :: "'obj state \<Rightarrow> bool" where
  "known_types s =
     (\<forall>info \<in> set (map snd (available_models s)).
         mtype info = ''transformers'' \<or> mtype info = ''onnx''
           \<or> mtype info = ''stable-diffusion'')"

definition service_invariant :: "'obj state \<Rightarrow> bool" where
  "service_invariant s = (lifecycle_invariant s \<and> known_types s)"

section \<open>The artifacts a scan meets\<close>

text \<open>
  What the loop body of \<open>scan_models\<close> registers for one directory, in order: the
  directory itself as a text model when it holds \<open>config.json\<close>, each of its files
  ending in \<open>.onnx\<close>, the directory itself as a diffusion model when it holds
  \<open>model_index.json\<close>. \<open>scanned_artifacts\<close> is the sequence over the whole walk, and
  \<open>register_all\<close> assigns a sequence of artifacts to a dictionary in order.
\<close>

definition descriptor :: "string \<Rightarrow> string \<Rightarrow> model_info" where
  "descriptor model_path model_type = \<lparr>path = model_path, mtype = model_type, loaded = False\<rparr>"

definition directory_artifacts ::
  "string \<times> string list \<times> string list \<Rightarrow> (string \<times> model_info) list" where
  "directory_artifacts t =
    (case t of (root, dirs, files) \<Rightarrow>
       (if ''config.json'' \<in> set files
        then [(basename root, descriptor root ''transformers'')] else [])
       @ map (\<lambda>file. (fst (splitext file), descriptor (join root file) ''onnx''))
             (filter (\<lambda>file. endswith file ''.onnx'') files)
       @ (if ''model_index.json'' \<in> set files
          then [(basename root, descriptor root ''stable-diffusion'')] else []))"

definition scanned_artifacts :: "string \<Rightarrow> node \<Rightarrow> (string \<times> model_info) list" where
  "scanned_artifacts dir tree = concat (map directory_artifacts (walk dir tree))"

definition register_all ::
  "(string \<times> model_info) list \<Rightarrow> (string \<times> model_info) list
     \<Rightarrow> (string \<times> model_info) list" where
  "register_all arts al = fold (\<lambda>(n, info). AList.update n info) arts al"

section \<open>Example inputs\<close>

text \<open>
  Concrete backends, directory trees and requests at which the theorems below are
  evaluated. Backend objects are strings here: a loader that succeeds returns the path
  it was given behind a tag. \<open>good_backend\<close> never fails and answers a prompt with the
  prompt followed by \<open>world\<close>; \<open>failing_backend\<close> fails every call;
  \<open>tokenizer_failing_backend\<close> is \<open>good_backend\<close> with a tokenizer that cannot be loaded;
  \<open>silent_backend\<close> loads like \<open>good_backend\<close> and generates the empty text and no bytes.
\<close>

definition good_backend :: "string backend" where
  "good_backend =
     \<lparr>causal_lm_from_pretrained = (\<lambda>p. Some (''model:'' @ p)),
      tokenizer_from_pretrained = (\<lambda>p. Some (''tokenizer:'' @ p)),
      inference_session = (\<lambda>p. Some (''session:'' @ p)),
      sd_from_pretrained = (\<lambda>p. Some (''pipeline:'' @ p)),
      pipeline_to = (\<lambda>p. True),
      text_generation = (\<lambda>m t p k. Some (p @ [32, 119, 111, 114, 108, 100])),
      image_generation = (\<lambda>pl p. Some ''PNG''),
      session_inputs = (\<lambda>x. [''a'', ''b'']),
      session_outputs = (\<lambda>x. [''sum'', ''product'']),
      session_run = (\<lambda>x ins. Some (map snd ins)),
      free_memory = True\<rparr>"

definition failing_backend :: "string backend" where
  "failing_backend =
     \<lparr>causal_lm_from_pretrained = (\<lambda>p. None),
      tokenizer_from_pretrained = (\<lambda>p. None),
      inference_session = (\<lambda>p. None),
      sd_from_pretrained = (\<lambda>p. None),
      pipeline_to = (\<lambda>p. False),
      text_generation = (\<lambda>m t p k. None),
      image_generation = (\<lambda>pl p. None),
      session_inputs = (\<lambda>x. [''a'', ''b'']),
      session_outputs = (\<lambda>x. [''sum'', ''product'']),
      session_run = (\<lambda>x ins. None),
      free_memory = False\<rparr>"

definition tokenizer_failing_backend :: "string backend" where
  "tokenizer_failing_backend = good_backend\<lparr>tokenizer_from_pretrained := (\<lambda>p. None)\<rparr>"

definition silent_backend :: "string backend" where
  "silent_backend =
     good_backend\<lparr>text_generation := (\<lambda>m t p k. Some []),
                  image_generation := (\<lambda>pl p. Some [])\<rparr>"

definition example_disk :: node where
  "example_disk =
     Dir [(''mistral-7b'', Dir [(''config.json'', File)]),
          (''sd'', Dir [(''model_index.json'', File),
                        (''unet'', Dir [(''config.json'', File)])]),
          (''sd.onnx'', File),
          (''adder.onnx'', File)]"

definition example_service :: "string state" where
  "example_service = init ''./models'' (Some example_disk)"

definition adder_service :: "string state" where
  "adder_service = snd (load_model good_backend ''adder'' example_service)"

definition hello :: pystr where
  "hello = [72, 101, 108, 108, 111]"

definition example_request :: "unit text_generation_request" where
  "example_request =
     \<lparr>prompt = hello, max_tokens = 10, temperature = (), top_p = (),
      frequency_penalty = (), presence_penalty = ()\<rparr>"

definition example_image_request :: "unit image_generation_request" where
  "example_image_request =
     \<lparr>image_prompt = hello, width = 512, height = 512, num_inference_steps = 50,
      guidance_scale = ()\<rparr>"

definition example_db :: "unit db" where
  "example_db =
     \<lparr>ai_models =
        [\<lparr>ai_id = 1, ai_name = ''mistral-7b'', ai_type = ''text'', ai_is_active = True\<rparr>,
         \<lparr>ai_id = 2, ai_name = ''sd'', ai_type = ''image'', ai_is_active = True\<rparr>],
      usage_logs = []\<rparr>"

definition example_key :: api_key where
  "example_key = \<lparr>key_id = 5, key_user_id = 3\<rparr>"

section \<open>Projections of the bookkeeping functions\<close>

lemma logger_sel [simp]:
  "model_dir (logger r s) = model_dir s"
  "loaded_models (logger r s) = loaded_models s"
  "available_models (logger r s) = available_models s"
  "fs (logger r s) = fs s"
  "creatable (logger r s) = creatable s"
  "log (logger r s) = log s @ [r]"
  "calls (logger r s) = calls s"
  by (simp_all add: logger_def)

lemma called_sel [simp]:
  "model_dir (called c s) = model_dir s"
  "loaded_models (called c s) = loaded_models s"
  "available_models (called c s) = available_models s"
  "fs (called c s) = fs s"
  "log (called c s) = log s"
  "calls (called c s) = calls s @ [c]"
  by (simp_all add: called_def)

lemma set_loaded_sel [simp]:
  "model_dir (set_loaded n b s) = model_dir s"
  "loaded_models (set_loaded n b s) = loaded_models s"
  "available_models (set_loaded n b s) =
     AList.map_entry n (\<lambda>info. info\<lparr>loaded := b\<rparr>) (available_models s)"
  "fs (set_loaded n b s) = fs s"
  "log (set_loaded n b s) = log s"
  "calls (set_loaded n b s) = calls s"
  by (simp_all add: set_loaded_def)

section \<open>Dispatch of a text request to a diffusion model\<close>

text \<open>
  C1. The claim is that \<open>generate_text\<close> on a name registered with type
  \<open>stable-diffusion\<close> checks the type before any load, so that flag and handles stay as
  they were. The method loads first. At the example service, with a backend whose loads
  succeed, the call returns \<open>None\<close> after two calls into the diffusion library, and
  leaves the pipeline in \<open>loaded_models\<close> and the flag set.
\<close>

theorem generate_text_loads_diffusion_model:
  "map_of (available_models example_service) ''sd''
      = Some \<lparr>path = ''./models/sd'', mtype = ''stable-diffusion'', loaded = False\<rparr>
   \<and> loaded_models example_service = []
   \<and> fst (generate_text good_backend ''sd'' hello 10 example_service) = Inr None
   \<and> calls (snd (generate_text good_backend ''sd'' hello 10 example_service))
       = [StableDiffusionPipeline_from_pretrained ''./models/sd'', Pipeline_to]
   \<and> loaded_models (snd (generate_text good_backend ''sd'' hello 10 example_service))
       = [(''sd'', [(''pipeline'', ''pipeline:./models/sd'')])]
   \<and> map_of (available_models (snd (generate_text good_backend ''sd'' hello 10 example_service)))
        ''sd''
       = Some \<lparr>path = ''./models/sd'', mtype = ''stable-diffusion'', loaded = True\<rparr>"
  by code_simp

text \<open>
  C1, as the code has it. For a name registered with type \<open>stable-diffusion\<close>,
  \<open>generate_text\<close> returns \<open>None\<close> and never calls text generation. The type is checked
  after the load: a name that already has a handle leaves the call with nothing changed
  but the logged type error; a name with no handle and a clear flag has its pipeline
  loaded first (the first new backend call is the pipeline loader on its path), and when
  that load succeeds the handle is stored, the flag is set and the type error is what is
  logged last.
\<close>

theorem generate_text_on_stable_diffusion:
  assumes "map_of (available_models s) name = Some info"
    and "mtype info = ''stable-diffusion''"
  shows "fst (generate_text be name p k s) = Inr None \<and>
    Text_generate name
      \<notin> set (drop (length (calls s)) (calls (snd (generate_text be name p k s)))) \<and>
    (map_of (loaded_models s) name \<noteq> None \<longrightarrow>
        snd (generate_text be name p k s) = logger (Error_not_text_model name) s) \<and>
    (map_of (loaded_models s) name = None \<and> \<not> loaded info \<longrightarrow>
        take (Suc (length (calls s))) (calls (snd (generate_text be name p k s)))
          = calls s @ [StableDiffusionPipeline_from_pretrained (path info)]) \<and>
    (map_of (loaded_models s) name = None \<and> \<not> loaded info \<and>
       sd_from_pretrained be (path info) = Some pl \<and> pipeline_to be pl \<longrightarrow>
        map_of (loaded_models (snd (generate_text be name p k s))) name
          = Some [(''pipeline'', pl)] \<and>
        map_of (available_models (snd (generate_text be name p k s))) name
          = Some (info\<lparr>loaded := True\<rparr>) \<and>
        last (log (snd (generate_text be name p k s))) = Error_not_text_model name)"
  using assms
  by (auto simp: generate_text_def load_if_absent_def load_model_def load_backend_def
      Let_def update_conv' map_of_map_entry
      split: option.splits)

theorem generate_text_on_stable_diffusion_witness:
  "map_of (available_models example_service) ''sd''
      = Some \<lparr>path = ''./models/sd'', mtype = ''stable-diffusion'', loaded = False\<rparr>
   \<and> map_of (loaded_models example_service) ''sd'' = None
   \<and> sd_from_pretrained good_backend ''./models/sd'' = Some ''pipeline:./models/sd''
   \<and> pipeline_to good_backend ''pipeline:./models/sd''
   \<and> fst (generate_text good_backend ''sd'' hello 10 example_service) = Inr None
   \<and> map_of (loaded_models (snd (generate_text good_backend ''sd'' hello 10 example_service)))
        ''sd'' = Some [(''pipeline'', ''pipeline:./models/sd'')]
   \<and> last (log (snd (generate_text good_backend ''sd'' hello 10 example_service)))
       = Error_not_text_model ''sd''"
proof -
  let ?info = "\<lparr>path = ''./models/sd'', mtype = ''stable-diffusion'', loaded = False\<rparr>"
  have reg: "map_of (available_models example_service) ''sd'' = Some ?info"
    by code_simp
  have ty: "mtype ?info = ''stable-diffusion''"
    by simp
  have cold: "map_of (loaded_models example_service) ''sd'' = None"
    by code_simp
  have ld: "sd_from_pretrained good_backend ''./models/sd'' = Some ''pipeline:./models/sd''"
    by code_simp
  have mv: "pipeline_to good_backend ''pipeline:./models/sd''"
    by code_simp
  show ?thesis
    using generate_text_on_stable_diffusion
            [OF reg ty, of good_backend hello 10 "''pipeline:./models/sd''"]
      reg cold ld mv
    by simp
qed


section \<open>A scan without a model directory\<close>

text \<open>
  C7. The claim is that a scan over a missing root directory always creates it and
  returns without error. The directory is created by \<open>os.makedirs\<close>, outside any \<open>try\<close>
  block. With the empty path as model directory (\<open>MODEL_DIR\<close> set to the empty string)
  nothing exists there, \<open>os.makedirs\<close> raises, and the exception leaves \<open>scan_models\<close>
  and the constructor: nothing is created and only the first record is logged.
\<close>

theorem scan_of_empty_path_raises:
  "fs (fresh [] None :: string state) = None
   \<and> fst (scan_models (fresh [] None :: string state)) = Some OSError
   \<and> fs (snd (scan_models (fresh [] None :: string state))) = None
   \<and> log (snd (scan_models (fresh [] None :: string state))) = [Info_scanning []]"
  by (simp add: scan_models_def fresh_def Let_def logger_def)

text \<open>
  C7, as the code has it. When nothing exists at \<open>model_dir\<close> and the directory can be
  created (the path is not empty and the environment allows it), \<open>scan_models\<close> creates
  it, empty, and returns: it registers nothing and loads nothing, and logs two
  informational records and no error; a service constructed this way lists no model.
  When the directory cannot be created, the exception of \<open>os.makedirs\<close> leaves
  \<open>scan_models\<close>, with nothing created, registered or loaded.
\<close>

theorem scan_creates_missing_directory:
  "(fs s = None \<and> model_dir s \<noteq> [] \<and> creatable s \<longrightarrow>
      fst (scan_models s) = None \<and>
      fs (snd (scan_models s)) = Some (Dir []) \<and>
      available_models (snd (scan_models s)) = available_models s \<and>
      loaded_models (snd (scan_models s)) = loaded_models s \<and>
      calls (snd (scan_models s)) = calls s \<and>
      log (snd (scan_models s))
        = log s @ [Info_scanning (model_dir s), Info_created_model_directory (model_dir s)])
   \<and> (fs s = None \<and> (model_dir s = [] \<or> \<not> creatable s) \<longrightarrow>
      fst (scan_models s) = Some OSError \<and>
      snd (scan_models s) = logger (Info_scanning (model_dir s)) s)
   \<and> (dir \<noteq> [] \<longrightarrow>
      fst (scan_models (fresh dir None :: 'obj state)) = None \<and>
      fs (init dir None :: 'obj state) = Some (Dir []) \<and>
      get_available_models (init dir None :: 'obj state) = [] \<and>
      log (init dir None :: 'obj state)
        = [Info_scanning dir, Info_created_model_directory dir])"
  by (auto simp: scan_models_def init_def fresh_def get_available_models_def Let_def logger_def)

theorem scan_creates_missing_directory_witness:
  "fs (fresh ''./models'' None :: string state) = None
   \<and> model_dir (fresh ''./models'' None :: string state) = ''./models''
   \<and> creatable (fresh ''./models'' None :: string state)
   \<and> fst (scan_models (fresh ''./models'' None :: string state)) = None
   \<and> fs (snd (scan_models (fresh ''./models'' None :: string state))) = Some (Dir [])
   \<and> available_models (snd (scan_models (fresh ''./models'' None :: string state))) = []
   \<and> fs ((fresh ''./models'' None :: string state)\<lparr>creatable := False\<rparr>) = None
   \<and> fst (scan_models ((fresh ''./models'' None :: string state)\<lparr>creatable := False\<rparr>))
       = Some OSError
   \<and> get_available_models (init ''./models'' None :: string state) = []"
proof -
  let ?s = "fresh ''./models'' None :: string state"
  let ?t = "?s\<lparr>creatable := False\<rparr>"
  have missing: "fs ?s = None" "fs ?t = None"
    by (simp_all add: fresh_def)
  have dir: "model_dir ?s = ''./models''" "''./models'' \<noteq> []"
    and nonempty: "model_dir ?s \<noteq> []" "model_dir ?t \<noteq> []"
    by (simp_all add: fresh_def)
  have can: "creatable ?s" and cannot: "\<not> creatable ?t"
    by (simp_all add: fresh_def)
  have empty: "available_models ?s = []"
    by (simp add: fresh_def)
  note a = scan_creates_missing_directory [of ?s "''./models''"]
  note b = scan_creates_missing_directory [of ?t "''./models''"]
  from a missing(1) nonempty(1) can
  have returned: "fst (scan_models ?s) = None"
    by blast
  from a missing(1) nonempty(1) can
  have created: "fs (snd (scan_models ?s)) = Some (Dir [])"
    by blast
  from a missing(1) nonempty(1) can
  have "available_models (snd (scan_models ?s)) = available_models ?s"
    by blast
  then have unregistered: "available_models (snd (scan_models ?s)) = []"
    by (simp add: empty)
  from a dir(2)
  have listing: "get_available_models (init ''./models'' None :: string state) = []"
    by blast
  from b missing(2) cannot
  have raised: "fst (scan_models ?t) = Some OSError"
    by blast
  show ?thesis
    using missing dir(1) can returned created unregistered raised listing by blast
qed

section \<open>Token accounting of the text endpoint\<close>

lemma token_starts_skip_space:
  "token_starts True (dropWhile isspace s) = token_starts True s"
  by (induction s) auto

lemma token_starts_skip_word:
  "token_starts True (dropWhile (\<lambda>x. \<not> isspace x) s) = token_starts False s"
  by (induction s) auto

lemma py_split_blank:
  "dropWhile isspace s = [] \<Longrightarrow> py_split s = []"
  by (subst py_split.simps) (simp only: list.case)

lemma py_split_word:
  "dropWhile isspace s = c # cs \<Longrightarrow>
     py_split s = (c # takeWhile (\<lambda>x. \<not> isspace x) cs)
                    # py_split (dropWhile (\<lambda>x. \<not> isspace x) cs)"
  by (subst py_split.simps) (simp only: list.case)

lemma length_py_split: "length (py_split s) = whitespace_token_count s"
proof (induction s rule: py_split.induct)
  case (1 s)
  show ?case
  proof (cases "dropWhile isspace s")
    case Nil
    have "token_starts True s = 0"
      using token_starts_skip_space [of s] Nil by simp
    then show ?thesis
      by (simp add: py_split_blank [OF Nil] whitespace_token_count_def)
  next
    case (Cons c cs)
    have "c = hd (dropWhile isspace s)" "dropWhile isspace s \<noteq> []"
      using Cons by simp_all
    then have word: "\<not> isspace c"
      using hd_dropWhile [of isspace s] by simp
    have "length (py_split s)
            = Suc (whitespace_token_count (dropWhile (\<lambda>x. \<not> isspace x) cs))"
      using "1.IH" [OF Cons] by (simp add: py_split_word [OF Cons])
    also have "\<dots> = Suc (token_starts False cs)"
      by (simp add: whitespace_token_count_def token_starts_skip_word)
    also have "\<dots> = token_starts True (c # cs)"
      using word by simp
    also have "\<dots> = token_starts True s"
      using token_starts_skip_space [of s] Cons by simp
    finally show ?thesis
      by (simp add: whitespace_token_count_def)
  qed
qed

text \<open>
  C8. A text request that the endpoint answers carries the text the service generated,
  and its \<open>tokens_used\<close> is \<open>len(prompt.split()) + len(text.split())\<close>, which is the
  number of white-space delimited tokens of the prompt plus that of the text.
\<close>

theorem tokens_used_counts_whitespace_tokens:
  assumes "fst (endpoint_generate_text be request model_name key (d, s)) = Inr response"
  shows "tokens_used response
           = int (length (py_split (prompt request)))
             + int (length (py_split (response_text response)))
     \<and> tokens_used response
           = int (whitespace_token_count (prompt request))
             + int (whitespace_token_count (response_text response))
     \<and> fst (generate_text be model_name (prompt request) (max_tokens request) s)
           = Inr (Some (response_text response))"
proof -
  obtain r s' where g:
    "generate_text be model_name (prompt request) (max_tokens request) s = (r, s')"
    by (cases "generate_text be model_name (prompt request) (max_tokens request) s")
  from assms g obtain t where t: "r = Inr (Some t)" "t \<noteq> []"
    and resp: "response = \<lparr>response_text = t,
                 tokens_used = int (length (py_split (prompt request)))
                                 + int (length (py_split t)),
                 response_model = model_name\<rparr>"
    by (auto simp: endpoint_generate_text_def truthy_def Let_def
        split: option.splits sum.splits if_splits)
  show ?thesis
    using g t resp by (simp add: length_py_split)
qed

theorem tokens_used_counts_whitespace_tokens_witness:
  "fst (endpoint_generate_text good_backend example_request ''mistral-7b'' example_key
          (example_db, example_service))
     = Inr \<lparr>response_text = hello @ [32, 119, 111, 114, 108, 100], tokens_used = 3,
            response_model = ''mistral-7b''\<rparr>
   \<and> whitespace_token_count (prompt example_request) = 1
   \<and> whitespace_token_count (hello @ [32, 119, 111, 114, 108, 100]) = 2"
proof -
  have q: "query_model example_db ''mistral-7b'' ''text''
      = Some \<lparr>ai_id = 1, ai_name = ''mistral-7b'', ai_type = ''text'', ai_is_active = True\<rparr>"
    by code_simp
  have g: "fst (generate_text good_backend ''mistral-7b'' hello 10 example_service)
             = Inr (Some (hello @ [32, 119, 111, 114, 108, 100]))"
    by code_simp
  have p: "prompt example_request = hello" "max_tokens example_request = 10"
    by (simp_all add: example_request_def)
  have s1: "py_split hello = [hello]"
    by (simp add: hello_def py_split.simps isspace_def)
  have s2: "py_split (hello @ [32, 119, 111, 114, 108, 100]) = [hello, [119, 111, 114, 108, 100]]"
    by (simp add: hello_def py_split.simps isspace_def)
  have ne: "hello @ [32, 119, 111, 114, 108, 100] \<noteq> []"
    by simp
  have answered:
    "fst (endpoint_generate_text good_backend example_request ''mistral-7b'' example_key
            (example_db, example_service))
       = Inr \<lparr>response_text = hello @ [32, 119, 111, 114, 108, 100], tokens_used = 3,
              response_model = ''mistral-7b''\<rparr>"
    by (simp add: endpoint_generate_text_def q p g s1 s2 ne truthy_def case_prod_unfold
          del: append_is_Nil_conv)
  have one: "whitespace_token_count (prompt example_request) = 1"
    by (simp add: p hello_def whitespace_token_count_def isspace_def)
  have "(3::int) = int (whitespace_token_count (prompt example_request))
          + int (whitespace_token_count (hello @ [32, 119, 111, 114, 108, 100]))"
    using tokens_used_counts_whitespace_tokens [OF answered] by simp
  then have "whitespace_token_count (hello @ [32, 119, 111, 114, 108, 100]) = 2"
    using one by simp
  then show ?thesis
    using answered one by simp
qed

section \<open>Empty generations at the endpoints\<close>

text \<open>
  C10. Both endpoints test the truth value of what the service returned. An empty text
  or an empty byte string is false like \<open>None\<close>, so it is answered with the same status
  500 as a failed generation and the database is left alone; a text response that is
  returned is never empty, and the image endpoint returns no response for empty bytes.
\<close>

theorem empty_generation_is_answered_as_failure:
  "(query_model d name ''text'' = Some m \<and>
      fst (generate_text be name (prompt request) (max_tokens request) s) = Inr r \<and>
      (r = None \<or> r = Some []) \<longrightarrow>
        fst (endpoint_generate_text be request name key (d, s))
          = Inl (HTTPException 500 ''Text generation failed'') \<and>
        fst (snd (endpoint_generate_text be request name key (d, s))) = d)
   \<and> (query_model d name ''image'' = Some m' \<and>
      fst (generate_image be name (image_prompt irequest) s) = Inr r' \<and>
      (r' = None \<or> r' = Some []) \<longrightarrow>
        fst (endpoint_generate_image be irequest name key (d, s))
          = Inl (HTTPException 500 ''Image generation failed'') \<and>
        fst (snd (endpoint_generate_image be irequest name key (d, s))) = d)
   \<and> (fst (endpoint_generate_text be request name key (d, s)) = Inr response \<longrightarrow>
        response_text response \<noteq> [])
   \<and> (fst (generate_image be name (image_prompt irequest) s) = Inr (Some []) \<longrightarrow>
        (\<forall>iresponse. fst (endpoint_generate_image be irequest name key (d, s))
                        \<noteq> Inr iresponse))"
  by (auto simp: endpoint_generate_text_def endpoint_generate_image_def truthy_def Let_def
      split: option.splits sum.splits prod.splits if_splits)

theorem empty_generation_is_answered_as_failure_witness:
  "query_model example_db ''mistral-7b'' ''text''
      = Some \<lparr>ai_id = 1, ai_name = ''mistral-7b'', ai_type = ''text'', ai_is_active = True\<rparr>
   \<and> fst (generate_text silent_backend ''mistral-7b'' (prompt example_request)
             (max_tokens example_request) example_service) = Inr (Some [])
   \<and> fst (endpoint_generate_text silent_backend example_request ''mistral-7b'' example_key
             (example_db, example_service))
       = Inl (HTTPException 500 ''Text generation failed'')
   \<and> fst (endpoint_generate_text failing_backend example_request ''mistral-7b'' example_key
             (example_db, example_service))
       = Inl (HTTPException 500 ''Text generation failed'')
   \<and> query_model example_db ''sd'' ''image''
      = Some \<lparr>ai_id = 2, ai_name = ''sd'', ai_type = ''image'', ai_is_active = True\<rparr>
   \<and> fst (generate_image silent_backend ''sd'' (image_prompt example_image_request)
             example_service) = Inr (Some [])
   \<and> fst (endpoint_generate_image silent_backend example_image_request ''sd'' example_key
             (example_db, example_service))
       = Inl (HTTPException 500 ''Image generation failed'')"
proof -
  have q: "query_model example_db ''mistral-7b'' ''text''
      = Some \<lparr>ai_id = 1, ai_name = ''mistral-7b'', ai_type = ''text'', ai_is_active = True\<rparr>"
    by code_simp
  have g: "fst (generate_text silent_backend ''mistral-7b'' (prompt example_request)
             (max_tokens example_request) example_service) = Inr (Some [])"
    by code_simp
  have f: "fst (generate_text failing_backend ''mistral-7b'' (prompt example_request)
             (max_tokens example_request) example_service) = Inr None"
    by code_simp
  have qi: "query_model example_db ''sd'' ''image''
      = Some \<lparr>ai_id = 2, ai_name = ''sd'', ai_type = ''image'', ai_is_active = True\<rparr>"
    by code_simp
  have gi: "fst (generate_image silent_backend ''sd'' (image_prompt example_image_request)
             example_service) = Inr (Some [])"
    by code_simp
  note a = empty_generation_is_answered_as_failure
             [where d = example_db and name = "''mistral-7b''" and be = silent_backend
                and request = example_request and s = example_service and r = "Some []"
                and key = example_key]
  note b = empty_generation_is_answered_as_failure
             [where d = example_db and name = "''mistral-7b''" and be = failing_backend
                and request = example_request and s = example_service and r = None
                and key = example_key]
  note c = empty_generation_is_answered_as_failure
             [where d = example_db and name = "''sd''" and be = silent_backend
                and irequest = example_image_request and s = example_service
                and r' = "Some []" and key = example_key]
  from a q g
  have t1: "fst (endpoint_generate_text silent_backend example_request ''mistral-7b''
                   example_key (example_db, example_service))
              = Inl (HTTPException 500 ''Text generation failed'')"
    by blast
  from b q f
  have t2: "fst (endpoint_generate_text failing_backend example_request ''mistral-7b''
                   example_key (example_db, example_service))
              = Inl (HTTPException 500 ''Text generation failed'')"
    by blast
  from c qi gi
  have t3: "fst (endpoint_generate_image silent_backend example_image_request ''sd''
                   example_key (example_db, example_service))
              = Inl (HTTPException 500 ''Image generation failed'')"
    by blast
  show ?thesis
    using q g qi gi t1 t2 t3 by simp
qed

section \<open>What a scan registers\<close>

lemma register_sel [simp]:
  "model_dir (register n p t s) = model_dir s"
  "loaded_models (register n p t s) = loaded_models s"
  "available_models (register n p t s) = AList.update n (descriptor p t) (available_models s)"
  "fs (register n p t s) = fs s"
  "log (register n p t s) = log s"
  "calls (register n p t s) = calls s"
  by (simp_all add: register_def descriptor_def)

lemma register_all_simps [simp]:
  "register_all [] al = al"
  "register_all ((n, info) # arts) al = register_all arts (AList.update n info al)"
  by (simp_all add: register_all_def)

lemma register_all_append:
  "register_all (xs @ ys) al = register_all ys (register_all xs al)"
  by (simp add: register_all_def)

lemma scan_onnx_file_frame [simp]:
  "loaded_models (scan_onnx_file root file s) = loaded_models s"
  "calls (scan_onnx_file root file s) = calls s"
  "fs (scan_onnx_file root file s) = fs s"
  "model_dir (scan_onnx_file root file s) = model_dir s"
  by (simp_all add: scan_onnx_file_def Let_def)

lemma fold_scan_onnx_file_frame [simp]:
  "loaded_models (fold (scan_onnx_file root) files s) = loaded_models s"
  "calls (fold (scan_onnx_file root) files s) = calls s"
  "fs (fold (scan_onnx_file root) files s) = fs s"
  "model_dir (fold (scan_onnx_file root) files s) = model_dir s"
  by (induction files arbitrary: s) simp_all

lemma fold_scan_onnx_file_available:
  "available_models (fold (scan_onnx_file root) files s)
     = register_all
         (map (\<lambda>file. (fst (splitext file), descriptor (join root file) ''onnx''))
              (filter (\<lambda>file. endswith file ''.onnx'') files))
         (available_models s)"
  by (induction files arbitrary: s) (simp_all add: scan_onnx_file_def Let_def)

lemma scan_directory_frame [simp]:
  "loaded_models (scan_directory t s) = loaded_models s"
  "calls (scan_directory t s) = calls s"
  "fs (scan_directory t s) = fs s"
  "model_dir (scan_directory t s) = model_dir s"
  by (simp_all add: scan_directory_def Let_def split: prod.splits)

lemma scan_directory_available:
  "available_models (scan_directory t s)
     = register_all (directory_artifacts t) (available_models s)"
  by (cases t)
     (simp add: scan_directory_def directory_artifacts_def Let_def
        fold_scan_onnx_file_available register_all_append)

lemma fold_scan_directory_frame [simp]:
  "loaded_models (fold scan_directory ts s) = loaded_models s"
  "calls (fold scan_directory ts s) = calls s"
  "fs (fold scan_directory ts s) = fs s"
  "model_dir (fold scan_directory ts s) = model_dir s"
  by (induction ts arbitrary: s) simp_all

lemma fold_scan_directory_available:
  "available_models (fold scan_directory ts s)
     = register_all (concat (map directory_artifacts ts)) (available_models s)"
  by (induction ts arbitrary: s)
     (simp_all add: scan_directory_available register_all_append)

lemma scan_models_frame [simp]:
  "loaded_models (snd (scan_models s)) = loaded_models s"
  "calls (snd (scan_models s)) = calls s"
  "model_dir (snd (scan_models s)) = model_dir s"
  by (simp_all add: scan_models_def Let_def split: option.splits)

lemma scan_models_available:
  "available_models (snd (scan_models s))
     = (case fs s of
          None \<Rightarrow> available_models s
        | Some tree \<Rightarrow> register_all (scanned_artifacts (model_dir s) tree) (available_models s))"
  by (simp add: scan_models_def Let_def scanned_artifacts_def fold_scan_directory_available
      split: option.splits)

lemma map_of_register_all:
  "map_of (register_all arts al) n
     = (case map_of (rev arts) n of None \<Rightarrow> map_of al n | Some info \<Rightarrow> Some info)"
proof (induction arts arbitrary: al)
  case Nil
  show ?case by simp
next
  case (Cons a arts)
  obtain k v where a: "a = (k, v)" by (cases a)
  show ?case
    by (simp add: a Cons.IH update_conv' map_add_def split: option.splits)
qed

lemma keys_register_all:
  "fst ` set (register_all arts al) = fst ` set arts \<union> fst ` set al"
proof (induction arts arbitrary: al)
  case Nil
  show ?case by simp
next
  case (Cons a arts)
  obtain k v where a: "a = (k, v)" by (cases a)
  show ?case
    by (auto simp: a Cons.IH dom_update)
qed

lemma distinct_register_all:
  "distinct (map fst al) \<Longrightarrow> distinct (map fst (register_all arts al))"
proof (induction arts arbitrary: al)
  case Nil
  then show ?case by simp
next
  case (Cons a arts)
  obtain k v where a: "a = (k, v)" by (cases a)
  show ?case
    using Cons.prems by (simp add: a Cons.IH distinct_update)
qed

lemma map_of_last_occurrence:
  "n \<notin> fst ` set ys \<Longrightarrow> map_of (rev (xs @ (n, info) # ys)) n = Some info"
proof -
  assume "n \<notin> fst ` set ys"
  then have "map_of (rev ys) n = None"
    by (simp add: map_of_eq_None_iff)
  then show ?thesis
    by (simp add: map_add_def)
qed

lemma count_list_distinct:
  "distinct xs \<Longrightarrow> x \<in> set xs \<Longrightarrow> count_list xs x = 1"
  by (induction xs) auto

lemma directory_artifacts_unloaded:
  "(n, info) \<in> set (directory_artifacts t) \<Longrightarrow>
     \<not> loaded info \<and>
     (mtype info = ''transformers'' \<or> mtype info = ''onnx'' \<or> mtype info = ''stable-diffusion'')"
  by (cases t) (auto simp: directory_artifacts_def descriptor_def split: if_splits)

lemma scanned_artifacts_unloaded:
  "(n, info) \<in> set (scanned_artifacts dir tree) \<Longrightarrow>
     \<not> loaded info \<and>
     (mtype info = ''transformers'' \<or> mtype info = ''onnx'' \<or> mtype info = ''stable-diffusion'')"
  by (auto simp: scanned_artifacts_def dest: directory_artifacts_unloaded)

lemma listing_names:
  "map listing_name (get_available_models s) = map fst (available_models s)"
  by (simp add: get_available_models_def case_prod_unfold)

lemma listing_entry:
  "(n, info) \<in> set (available_models s) \<Longrightarrow>
     \<lparr>listing_name = n, listing_type = mtype info, listing_loaded = loaded info\<rparr>
       \<in> set (get_available_models s)"
  by (force simp: get_available_models_def)

lemma init_available:
  "available_models (init dir (Some tree) :: 'obj state)
     = register_all (scanned_artifacts dir tree) []"
  by (simp add: init_def scan_models_available fresh_def)

text \<open>
  C6. After the constructor's scan of a directory tree the listing names every resolved
  name, and nothing else, exactly once; and when the last artifact that resolves to a
  name is \<open>(n, info)\<close>, the registry holds \<open>info\<close> (its path and type) for \<open>n\<close> and the
  listing shows \<open>n\<close> with that type, not loaded.
\<close>

theorem scan_lists_each_resolved_name_once:
  "distinct (map listing_name (get_available_models (init dir (Some tree) :: 'obj state)))
   \<and> set (map listing_name (get_available_models (init dir (Some tree) :: 'obj state)))
        = fst ` set (scanned_artifacts dir tree)
   \<and> (\<forall>n \<in> fst ` set (scanned_artifacts dir tree).
         count_list (map listing_name (get_available_models (init dir (Some tree) :: 'obj state))) n
           = 1)
   \<and> (scanned_artifacts dir tree = xs @ (n, info) # ys \<and> n \<notin> fst ` set ys \<longrightarrow>
         map_of (available_models (init dir (Some tree) :: 'obj state)) n = Some info \<and>
         \<lparr>listing_name = n, listing_type = mtype info, listing_loaded = False\<rparr>
           \<in> set (get_available_models (init dir (Some tree) :: 'obj state)))"
proof -
  let ?s = "init dir (Some tree) :: 'obj state"
  let ?arts = "scanned_artifacts dir tree"
  have d: "distinct (map listing_name (get_available_models ?s))"
    using distinct_register_all [of "[]" ?arts]
    by (simp add: listing_names init_available)
  have k: "set (map listing_name (get_available_models ?s)) = fst ` set ?arts"
    by (simp add: listing_names init_available keys_register_all)
  have c: "\<forall>n \<in> fst ` set ?arts.
             count_list (map listing_name (get_available_models ?s)) n = 1"
    using d k count_list_distinct by metis
  have l: "map_of (available_models ?s) n = Some info \<and>
           \<lparr>listing_name = n, listing_type = mtype info, listing_loaded = False\<rparr>
             \<in> set (get_available_models ?s)"
    if split: "?arts = xs @ (n, info) # ys" and last: "n \<notin> fst ` set ys"
  proof -
    have m: "map_of (available_models ?s) n = Some info"
      using map_of_last_occurrence [OF last, of xs info]
      by (simp only: init_available map_of_register_all split) simp
    have "(n, info) \<in> set ?arts"
      by (simp add: split)
    then have "\<not> loaded info"
      using scanned_artifacts_unloaded by blast
    then show ?thesis
      using m listing_entry [OF map_of_SomeD [OF m]] by simp
  qed
  show ?thesis
    using d k c l by blast
qed

theorem scan_lists_each_resolved_name_once_witness:
  "scanned_artifacts ''./models'' example_disk
     = [(''sd'', descriptor ''./models/sd.onnx'' ''onnx''),
        (''adder'', descriptor ''./models/adder.onnx'' ''onnx''),
        (''mistral-7b'', descriptor ''./models/mistral-7b'' ''transformers'')]
       @ (''sd'', descriptor ''./models/sd'' ''stable-diffusion'')
       # [(''unet'', descriptor ''./models/sd/unet'' ''transformers'')]
   \<and> ''sd'' \<notin> fst ` set [(''unet'', descriptor ''./models/sd/unet'' ''transformers'')]
   \<and> ''sd'' \<in> fst ` set (scanned_artifacts ''./models'' example_disk)
   \<and> count_list (map listing_name (get_available_models example_service)) ''sd'' = 1
   \<and> \<lparr>listing_name = ''sd'', listing_type = ''stable-diffusion'', listing_loaded = False\<rparr>
        \<in> set (get_available_models example_service)"
proof -
  let ?xs = "[(''sd'', descriptor ''./models/sd.onnx'' ''onnx''),
              (''adder'', descriptor ''./models/adder.onnx'' ''onnx''),
              (''mistral-7b'', descriptor ''./models/mistral-7b'' ''transformers'')]"
  let ?ys = "[(''unet'', descriptor ''./models/sd/unet'' ''transformers'')]"
  let ?info = "descriptor ''./models/sd'' ''stable-diffusion''"
  have arts: "scanned_artifacts ''./models'' example_disk = ?xs @ (''sd'', ?info) # ?ys"
    by code_simp
  have last: "''sd'' \<notin> fst ` set ?ys"
    by simp
  have resolved: "''sd'' \<in> fst ` set (scanned_artifacts ''./models'' example_disk)"
    by (simp add: arts)
  have ty: "mtype ?info = ''stable-diffusion''"
    by (simp add: descriptor_def)
  note inst = scan_lists_each_resolved_name_once
               [where dir = "''./models''" and tree = example_disk and xs = ?xs
                  and n = "''sd''" and info = ?info and ys = ?ys and 'obj = string]
  from inst resolved
  have once: "count_list (map listing_name (get_available_models example_service)) ''sd'' = 1"
    unfolding example_service_def by blast
  from inst arts last ty
  have shown: "\<lparr>listing_name = ''sd'', listing_type = ''stable-diffusion'',
                 listing_loaded = False\<rparr> \<in> set (get_available_models example_service)"
    unfolding example_service_def by metis
  show ?thesis
    using arts last resolved once shown by blast
qed

section \<open>The lifecycle invariant\<close>

lemma lifecycle_invariant_iff:
  "lifecycle_invariant s \<longleftrightarrow>
     (\<forall>n. loaded_flag s n = has_handle s n) \<and> distinct (map fst (loaded_models s))"
proof -
  have "loaded_flag s n = has_handle s n"
    if "n \<notin> set (map fst (available_models s) @ map fst (loaded_models s))" for n
  proof -
    from that have "map_of (available_models s) n = None" "map_of (loaded_models s) n = None"
      by (simp_all add: map_of_eq_None_iff)
    then show ?thesis
      by (simp add: loaded_flag_def has_handle_def)
  qed
  then show ?thesis
    unfolding lifecycle_invariant_def by blast
qed

lemma service_invariant_cong:
  "available_models s' = available_models s \<Longrightarrow> loaded_models s' = loaded_models s \<Longrightarrow>
     service_invariant s' = service_invariant s"
  by (simp add: service_invariant_def lifecycle_invariant_def known_types_def
      loaded_flag_def has_handle_def)

lemma known_types_lookup:
  "known_types s \<Longrightarrow> map_of (available_models s) n = Some info \<Longrightarrow>
     mtype info = ''transformers'' \<or> mtype info = ''onnx'' \<or> mtype info = ''stable-diffusion''"
  unfolding known_types_def by (force dest: map_of_SomeD)

lemma mtype_map_entry:
  "(k, i) \<in> set (AList.map_entry n (\<lambda>info. info\<lparr>loaded := b\<rparr>) al) \<Longrightarrow>
     \<exists>j. (k, j) \<in> set al \<and> mtype i = mtype j"
  by (induction al) (auto split: if_splits)

lemma known_types_set_loaded:
  "known_types s \<Longrightarrow> known_types (set_loaded n b s)"
  unfolding known_types_def by (fastforce dest: mtype_map_entry)

lemma set_update_subset: "set (AList.update k v al) \<subseteq> insert (k, v) (set al)"
  by (induction al) auto

lemma set_register_all_subset: "set (register_all arts al) \<subseteq> set arts \<union> set al"
proof (induction arts arbitrary: al)
  case Nil
  show ?case by simp
next
  case (Cons a arts)
  obtain k v where a: "a = (k, v)" by (cases a)
  show ?case
    using Cons.IH [of "AList.update k v al"] set_update_subset [of k v al]
    by (auto simp: a)
qed

subsection \<open>What loading does to the two dictionaries\<close>

lemma load_backend_Inl:
  "load_backend be n p t s = Inl s' \<Longrightarrow>
     loaded_models s' = loaded_models s \<and> available_models s' = available_models s"
  by (simp add: load_backend_def Let_def split: if_splits option.splits) auto

lemma load_backend_Inr:
  assumes "t = ''transformers'' \<or> t = ''onnx'' \<or> t = ''stable-diffusion''"
    and "load_backend be n p t s = Inr s'"
  shows "(\<exists>h. loaded_models s' = AList.update n h (loaded_models s)) \<and>
         available_models s' = available_models s"
  using assms
  by (simp add: load_backend_def Let_def split: if_splits option.splits) auto

lemma load_backend_unknown:
  "\<not> (t = ''transformers'' \<or> t = ''onnx'' \<or> t = ''stable-diffusion'') \<Longrightarrow>
     load_backend be n p t s = Inr s"
  by (simp add: load_backend_def)

lemma load_backend_calls:
  assumes "t = ''transformers'' \<or> t = ''onnx'' \<or> t = ''stable-diffusion''"
  shows "take (Suc (length (calls s)))
           (calls (case load_backend be n p t s of Inl s' \<Rightarrow> s' | Inr s' \<Rightarrow> s'))
           = calls s @ [loader_call t p]"
  using assms
  by (elim disjE) (simp_all add: load_backend_def loader_call_def Let_def split: option.splits)

lemma load_backend_cong:
  assumes "available_models s1 = available_models s" "loaded_models s1 = loaded_models s"
  shows "(case load_backend be n p t s1 of
            Inl s1' \<Rightarrow> (\<exists>s'. load_backend be n p t s = Inl s' \<and>
                          available_models s1' = available_models s' \<and>
                          loaded_models s1' = loaded_models s')
          | Inr s1' \<Rightarrow> (\<exists>s'. load_backend be n p t s = Inr s' \<and>
                          available_models s1' = available_models s' \<and>
                          loaded_models s1' = loaded_models s'))"
  using assms
  by (auto simp: load_backend_def Let_def split: option.splits)

lemma load_model_cong:
  assumes "available_models s1 = available_models s" "loaded_models s1 = loaded_models s"
  shows "fst (load_model be n s1) = fst (load_model be n s) \<and>
         available_models (snd (load_model be n s1)) = available_models (snd (load_model be n s)) \<and>
         loaded_models (snd (load_model be n s1)) = loaded_models (snd (load_model be n s))"
proof (cases "map_of (available_models s) n")
  case None
  then show ?thesis
    using assms by (simp add: load_model_def)
next
  case (Some info)
  show ?thesis
  proof (cases "loaded info")
    case True
    then show ?thesis
      using assms Some by (simp add: load_model_def)
  next
    case False
    show ?thesis
      using load_backend_cong [OF assms, of be n "path info" "mtype info"] assms Some False
      by (auto simp: load_model_def split: sum.splits)
  qed
qed

lemma load_model_failure:
  assumes reg: "map_of (available_models s) n = Some info"
    and fail: "fst (load_model be n s) = False"
  shows "\<not> loaded info \<and>
         (mtype info = ''transformers'' \<or> mtype info = ''onnx''
            \<or> mtype info = ''stable-diffusion'') \<and>
         available_models (snd (load_model be n s)) = available_models s \<and>
         loaded_models (snd (load_model be n s)) = loaded_models s \<and>
         last (log (snd (load_model be n s))) = Error_load_failed n \<and>
         take (Suc (length (calls s))) (calls (snd (load_model be n s)))
           = calls s @ [loader_call (mtype info) (path info)]"
proof -
  have cold: "\<not> loaded info"
    using reg fail by (auto simp: load_model_def)
  have known: "mtype info = ''transformers'' \<or> mtype info = ''onnx''
                 \<or> mtype info = ''stable-diffusion''"
  proof (rule ccontr)
    assume "\<not> ?thesis"
    then have "load_backend be n (path info) (mtype info) s = Inr s"
      by (rule load_backend_unknown)
    then have "fst (load_model be n s) = True"
      using reg cold by (simp add: load_model_def)
    with fail show False by simp
  qed
  obtain s' where lb: "load_backend be n (path info) (mtype info) s = Inl s'"
    using reg fail cold by (cases "load_backend be n (path info) (mtype info) s")
      (auto simp: load_model_def)
  have sn: "snd (load_model be n s) = logger (Error_load_failed n) s'"
    using reg cold lb by (simp add: load_model_def)
  show ?thesis
    using load_backend_Inl [OF lb] load_backend_calls [OF known, of s be n "path info"]
      cold known
    by (simp add: sn lb)
qed

lemma load_model_cold:
  assumes reg: "map_of (available_models s) n = Some info"
    and cold: "\<not> loaded info"
    and known: "mtype info = ''transformers'' \<or> mtype info = ''onnx''
                  \<or> mtype info = ''stable-diffusion''"
  shows "take (Suc (length (calls s))) (calls (snd (load_model be n s)))
           = calls s @ [loader_call (mtype info) (path info)]"
  using load_backend_calls [OF known, of s be n "path info"] reg cold
  by (simp add: load_model_def split: sum.splits)

lemma load_model_success:
  assumes inv: "service_invariant s"
    and ok: "fst (load_model be n s) = True"
  shows "\<exists>info. map_of (available_models s) n = Some info \<and>
           map_of (available_models (snd (load_model be n s))) n = Some (info\<lparr>loaded := True\<rparr>) \<and>
           map_of (loaded_models (snd (load_model be n s))) n \<noteq> None"
proof -
  from ok obtain info where reg: "map_of (available_models s) n = Some info"
    by (auto simp: load_model_def split: option.splits)
  have known: "mtype info = ''transformers'' \<or> mtype info = ''onnx''
                 \<or> mtype info = ''stable-diffusion''"
    using inv reg known_types_lookup by (auto simp: service_invariant_def)
  show ?thesis
  proof (cases "loaded info")
    case True
    then have "loaded_flag s n"
      by (simp add: loaded_flag_def reg)
    then have "has_handle s n"
      using inv by (simp add: service_invariant_def lifecycle_invariant_iff)
    moreover have "info\<lparr>loaded := True\<rparr> = info"
      using True by simp
    ultimately show ?thesis
      using reg True by (simp add: load_model_def has_handle_def)
  next
    case False
    obtain s' where lb: "load_backend be n (path info) (mtype info) s = Inr s'"
      using reg ok False by (cases "load_backend be n (path info) (mtype info) s")
        (auto simp: load_model_def)
    have sn: "snd (load_model be n s) = logger (Info_loaded n) (set_loaded n True s')"
      using reg False lb by (simp add: load_model_def)
    from load_backend_Inr [OF known lb] obtain h
      where "loaded_models s' = AList.update n h (loaded_models s)"
        and "available_models s' = available_models s"
      by blast
    then show ?thesis
      using reg by (simp add: sn update_conv' map_of_map_entry)
  qed
qed

lemma load_model_invariant:
  assumes inv: "service_invariant s"
  shows "service_invariant (snd (load_model be n s))"
proof (cases "map_of (available_models s) n")
  case None
  then have "snd (load_model be n s) = logger (Error_model_not_found n) s"
    by (simp add: load_model_def)
  then show ?thesis
    using inv service_invariant_cong [of "logger (Error_model_not_found n) s" s] by simp
next
  case (Some info)
  show ?thesis
  proof (cases "loaded info")
    case True
    then have "snd (load_model be n s) = logger (Info_already_loaded n) s"
      using Some by (simp add: load_model_def)
    then show ?thesis
      using inv service_invariant_cong [of "logger (Info_already_loaded n) s" s] by simp
  next
    case False
    have known: "mtype info = ''transformers'' \<or> mtype info = ''onnx''
                   \<or> mtype info = ''stable-diffusion''"
      using inv Some known_types_lookup by (auto simp: service_invariant_def)
    show ?thesis
    proof (cases "load_backend be n (path info) (mtype info) s")
      case (Inl s')
      then have "snd (load_model be n s) = logger (Error_load_failed n) s'"
        using Some False by (simp add: load_model_def)
      then show ?thesis
        using inv load_backend_Inl [OF Inl]
          service_invariant_cong [of "logger (Error_load_failed n) s'" s]
        by simp
    next
      case (Inr s')
      from load_backend_Inr [OF known Inr] obtain h
        where l: "loaded_models s' = AList.update n h (loaded_models s)"
          and a: "available_models s' = available_models s"
        by blast
      let ?t = "snd (load_model be n s)"
      have t: "?t = logger (Info_loaded n) (set_loaded n True s')"
        using Some False Inr by (simp add: load_model_def)
      have ta: "available_models ?t
                  = AList.map_entry n (\<lambda>i. i\<lparr>loaded := True\<rparr>) (available_models s)"
        and tl: "loaded_models ?t = AList.update n h (loaded_models s)"
        by (simp_all add: t l a)
      have flags: "\<forall>m. loaded_flag s m = has_handle s m"
        and dist: "distinct (map fst (loaded_models s))"
        and kt: "known_types s"
        using inv by (simp_all add: service_invariant_def lifecycle_invariant_iff)
      have "\<forall>m. loaded_flag ?t m = has_handle ?t m"
      proof
        fix m
        show "loaded_flag ?t m = has_handle ?t m"
          using flags [rule_format, of m] Some
          by (cases "m = n")
             (simp_all add: loaded_flag_def has_handle_def ta tl update_conv' map_of_map_entry)
      qed
      moreover have "distinct (map fst (loaded_models ?t))"
        using dist by (simp add: tl distinct_update)
      moreover have "known_types ?t"
      proof -
        have "known_types (set_loaded n True s)"
          using kt by (rule known_types_set_loaded)
        then show ?thesis
          by (simp add: known_types_def ta)
      qed
      ultimately show ?thesis
        by (simp add: service_invariant_def lifecycle_invariant_iff)
    qed
  qed
qed

subsection \<open>Unloading\<close>

lemma unload_model_absent:
  "map_of (loaded_models s) n = None \<Longrightarrow>
     unload_model be n s = (False, logger (Error_model_not_loaded n) s)"
  by (simp add: unload_model_def)

lemma unload_model_present:
  assumes "map_of (loaded_models s) n = Some h"
    and "map_of (available_models s) n = Some info"
  shows "fst (unload_model be n s) = free_memory be \<and>
         loaded_models (snd (unload_model be n s)) = AList.delete n (loaded_models s) \<and>
         available_models (snd (unload_model be n s))
           = AList.map_entry n (\<lambda>i. i\<lparr>loaded := False\<rparr>) (available_models s) \<and>
         calls (snd (unload_model be n s)) = calls s"
  using assms by (simp add: unload_model_def Let_def)

lemma handle_is_registered:
  assumes "service_invariant s" and "map_of (loaded_models s) n = Some h"
  shows "\<exists>info. map_of (available_models s) n = Some info \<and> loaded info"
proof -
  have "has_handle s n"
    using assms(2) by (simp add: has_handle_def)
  then have "loaded_flag s n"
    using assms(1) by (simp add: service_invariant_def lifecycle_invariant_iff)
  then show ?thesis
    by (simp add: loaded_flag_def split: option.splits)
qed

lemma unload_model_invariant:
  assumes inv: "service_invariant s"
  shows "service_invariant (snd (unload_model be n s))"
proof (cases "map_of (loaded_models s) n")
  case None
  then show ?thesis
    using inv service_invariant_cong [of "logger (Error_model_not_loaded n) s" s]
    by (simp add: unload_model_absent)
next
  case (Some h)
  from handle_is_registered [OF inv Some] obtain info
    where reg: "map_of (available_models s) n = Some info"
    by blast
  let ?t = "snd (unload_model be n s)"
  have tl: "loaded_models ?t = AList.delete n (loaded_models s)"
    and ta: "available_models ?t
               = AList.map_entry n (\<lambda>i. i\<lparr>loaded := False\<rparr>) (available_models s)"
    using unload_model_present [OF Some reg, of be] by simp_all
  have flags: "\<forall>m. loaded_flag s m = has_handle s m"
    and dist: "distinct (map fst (loaded_models s))"
    and kt: "known_types s"
    using inv by (simp_all add: service_invariant_def lifecycle_invariant_iff)
  have "\<forall>m. loaded_flag ?t m = has_handle ?t m"
  proof
    fix m
    show "loaded_flag ?t m = has_handle ?t m"
      using flags [rule_format, of m] reg
      by (cases "m = n")
         (simp_all add: loaded_flag_def has_handle_def ta tl delete_conv' map_of_map_entry)
  qed
  moreover have "distinct (map fst (loaded_models ?t))"
    using dist by (simp add: tl distinct_delete)
  moreover have "known_types ?t"
  proof -
    have "known_types (set_loaded n False s)"
      using kt by (rule known_types_set_loaded)
    then show ?thesis
      by (simp add: known_types_def ta)
  qed
  ultimately show ?thesis
    by (simp add: service_invariant_def lifecycle_invariant_iff)
qed

subsection \<open>Dispatch changes the dictionaries only through the load step\<close>

lemma load_if_absent_invariant:
  "service_invariant s \<Longrightarrow> service_invariant (snd (load_if_absent be n s))"
  by (simp add: load_if_absent_def load_model_invariant)

lemma take_prefix_trans:
  assumes "take (length a) b = a" and "take j a = c" and "length c = j"
  shows "take j b = c"
proof -
  have "j \<le> length a"
    using assms(2,3) by auto
  then have "take j b = take j (take (length a) b)"
    by (simp add: min_def)
  then show ?thesis
    using assms(1,2) by simp
qed

lemma generate_text_dicts:
  "loaded_models (snd (generate_text be n p k s)) = loaded_models (snd (load_if_absent be n s))"
  "available_models (snd (generate_text be n p k s))
     = available_models (snd (load_if_absent be n s))"
  "take (length (calls (snd (load_if_absent be n s)))) (calls (snd (generate_text be n p k s)))
     = calls (snd (load_if_absent be n s))"
  by (cases "load_if_absent be n s";
      simp add: generate_text_def Let_def split: bool.splits option.splits)+

lemma generate_image_dicts:
  "loaded_models (snd (generate_image be n p s)) = loaded_models (snd (load_if_absent be n s))"
  "available_models (snd (generate_image be n p s))
     = available_models (snd (load_if_absent be n s))"
  "take (length (calls (snd (load_if_absent be n s)))) (calls (snd (generate_image be n p s)))
     = calls (snd (load_if_absent be n s))"
  by (cases "load_if_absent be n s";
      simp add: generate_image_def Let_def split: bool.splits option.splits)+

lemma run_onnx_model_dicts:
  "loaded_models (snd (run_onnx_model be n ins s)) = loaded_models (snd (load_if_absent be n s))"
  "available_models (snd (run_onnx_model be n ins s))
     = available_models (snd (load_if_absent be n s))"
  "take (length (calls (snd (load_if_absent be n s)))) (calls (snd (run_onnx_model be n ins s)))
     = calls (snd (load_if_absent be n s))"
  by (cases "load_if_absent be n s";
      simp add: run_onnx_model_def Let_def split: bool.splits option.splits sum.splits)+

lemma load_if_absent_cold:
  assumes "map_of (loaded_models s) n = None"
    and "map_of (available_models s) n = Some info"
    and "\<not> loaded info"
    and "mtype info = ''transformers'' \<or> mtype info = ''onnx''
           \<or> mtype info = ''stable-diffusion''"
  shows "take (Suc (length (calls s))) (calls (snd (load_if_absent be n s)))
           = calls s @ [loader_call (mtype info) (path info)]"
  using load_model_cold [OF assms(2,3,4), of be] assms(1)
  by (simp add: load_if_absent_def)

subsection \<open>Scanning while nothing is loaded\<close>

lemma scan_models_invariant:
  assumes inv: "service_invariant s" and none: "loaded_models s = []"
  shows "service_invariant (snd (scan_models s))"
proof -
  have kt: "known_types s"
    and flags: "\<forall>m. \<not> loaded_flag s m"
    using inv none
    by (simp_all add: service_invariant_def lifecycle_invariant_iff has_handle_def)
  show ?thesis
  proof (cases "fs s")
    case None
    then have "available_models (snd (scan_models s)) = available_models s"
      by (simp add: scan_models_available)
    then show ?thesis
      using inv service_invariant_cong [of "snd (scan_models s)" s] by simp
  next
    case (Some tree)
    let ?arts = "scanned_artifacts (model_dir s) tree"
    have av: "available_models (snd (scan_models s)) = register_all ?arts (available_models s)"
      by (simp add: scan_models_available Some)
    have "\<not> loaded_flag (snd (scan_models s)) m" for m
    proof (cases "map_of (rev ?arts) m")
      case None
      then show ?thesis
        using flags [rule_format, of m]
        by (simp add: loaded_flag_def av map_of_register_all)
    next
      case (Some i)
      then have "(m, i) \<in> set ?arts"
        using map_of_SomeD [of "rev ?arts" m i] by simp
      then have "\<not> loaded i"
        using scanned_artifacts_unloaded by blast
      then show ?thesis
        by (simp add: loaded_flag_def av map_of_register_all Some)
    qed
    moreover have "known_types (snd (scan_models s))"
      unfolding known_types_def
    proof
      fix i
      assume "i \<in> set (map snd (available_models (snd (scan_models s))))"
      then obtain m where "(m, i) \<in> set (register_all ?arts (available_models s))"
        by (auto simp: av)
      then have "(m, i) \<in> set ?arts \<or> (m, i) \<in> set (available_models s)"
        using set_register_all_subset [of ?arts "available_models s"] by blast
      then show "mtype i = ''transformers'' \<or> mtype i = ''onnx''
                   \<or> mtype i = ''stable-diffusion''"
      proof
        assume "(m, i) \<in> set ?arts"
        then show ?thesis
          using scanned_artifacts_unloaded by blast
      next
        assume "(m, i) \<in> set (available_models s)"
        then have "i \<in> set (map snd (available_models s))"
          by force
        then show ?thesis
          using kt unfolding known_types_def by blast
      qed
    qed
    ultimately show ?thesis
      by (simp add: service_invariant_def lifecycle_invariant_iff has_handle_def none)
  qed
qed

lemma fresh_invariant: "service_invariant (fresh dir disk)"
  by (simp add: service_invariant_def lifecycle_invariant_def known_types_def fresh_def)

lemma perform_invariant:
  assumes "service_invariant s" and "is_scan x \<longrightarrow> loaded_models s = []"
  shows "service_invariant (perform x s)"
proof (cases x)
  case Scan_models
  then show ?thesis
    using assms by (simp add: scan_models_invariant)
next
  case (Load_model be n)
  then show ?thesis
    using assms(1) by (simp add: load_model_invariant)
next
  case (Unload_model be n)
  then show ?thesis
    using assms(1) by (simp add: unload_model_invariant)
next
  case (Generate_text be n p k)
  then show ?thesis
    using load_if_absent_invariant [OF assms(1), of be n]
      service_invariant_cong [of "snd (generate_text be n p k s)" "snd (load_if_absent be n s)"]
    by (simp add: generate_text_dicts)
next
  case (Generate_image be n p)
  then show ?thesis
    using load_if_absent_invariant [OF assms(1), of be n]
      service_invariant_cong [of "snd (generate_image be n p s)" "snd (load_if_absent be n s)"]
    by (simp add: generate_image_dicts)
next
  case (Run_onnx_model be n ins)
  then show ?thesis
    using load_if_absent_invariant [OF assms(1), of be n]
      service_invariant_cong [of "snd (run_onnx_model be n ins s)" "snd (load_if_absent be n s)"]
    by (simp add: run_onnx_model_dicts)
next
  case (Disk_becomes disk)
  then show ?thesis
    using assms(1) service_invariant_cong [of "s\<lparr>fs := disk\<rparr>" s] by simp
next
  case (Creatable_becomes b)
  then show ?thesis
    using assms(1) service_invariant_cong [of "s\<lparr>creatable := b\<rparr>" s] by simp
qed

lemma run_invariant:
  "service_invariant s \<Longrightarrow> scans_while_unloaded ops s \<Longrightarrow> service_invariant (run ops s)"
proof (induction ops arbitrary: s)
  case Nil
  then show ?case by (simp add: run_def)
next
  case (Cons x ops)
  have "service_invariant (perform x s)"
    using Cons.prems by (simp add: perform_invariant)
  then have "service_invariant (run ops (perform x s))"
    using Cons.prems by (simp add: Cons.IH)
  then show ?case
    by (simp add: run_def)
qed

section \<open>The lifecycle invariant over sequences of operations\<close>

text \<open>
  C3. The claim is that flag and handle agree in every state that any sequence of the six
  operations reaches. \<open>scan_models\<close> assigns a new descriptor with \<open>loaded = False\<close> to
  every name it finds and leaves \<open>loaded_models\<close> alone: after construction, a load of
  \<open>sd\<close> and a second scan, \<open>sd\<close> has a handle and a clear flag.
\<close>

theorem rescan_clears_flag_of_loaded_model:
  "has_handle (run [Scan_models, Load_model good_backend ''sd'', Scan_models]
                 (fresh ''./models'' (Some example_disk))) ''sd''
   \<and> \<not> loaded_flag (run [Scan_models, Load_model good_backend ''sd'', Scan_models]
                       (fresh ''./models'' (Some example_disk))) ''sd''
   \<and> \<not> lifecycle_invariant (run [Scan_models, Load_model good_backend ''sd'', Scan_models]
                               (fresh ''./models'' (Some example_disk)))"
  by code_simp

text \<open>
  C3, as the code has it. Starting from the object the constructor begins with, every
  sequence of \<open>scan_models\<close>, \<open>load_model\<close>, \<open>unload_model\<close>, \<open>generate_text\<close>,
  \<open>generate_image\<close> and \<open>run_onnx_model\<close> calls (and of changes to the directory) in
  which each scan runs while no handle is held, the constructor's own scan among them,
  ends in a state where a name has its flag set exactly when it has a handle, and where
  no name has two handles.
\<close>

theorem lifecycle_invariant_of_reachable_states:
  assumes "scans_while_unloaded ops (fresh dir disk)"
  shows "lifecycle_invariant (run ops (fresh dir disk))
     \<and> (\<forall>n. loaded_flag (run ops (fresh dir disk)) n = has_handle (run ops (fresh dir disk)) n)
     \<and> distinct (map fst (loaded_models (run ops (fresh dir disk))))"
proof -
  have "service_invariant (run ops (fresh dir disk))"
    using fresh_invariant assms by (rule run_invariant)
  then show ?thesis
    by (simp add: service_invariant_def lifecycle_invariant_iff)
qed

theorem lifecycle_invariant_of_reachable_states_witness:
  "scans_while_unloaded
     [Scan_models, Load_model good_backend ''sd'', Unload_model good_backend ''sd'',
      Scan_models, Generate_text good_backend ''mistral-7b'' hello 10,
      Run_onnx_model failing_backend ''adder'' []]
     (fresh ''./models'' (Some example_disk))
   \<and> has_handle
        (run [Scan_models, Load_model good_backend ''sd'', Unload_model good_backend ''sd'',
              Scan_models, Generate_text good_backend ''mistral-7b'' hello 10,
              Run_onnx_model failing_backend ''adder'' []]
           (fresh ''./models'' (Some example_disk))) ''mistral-7b''
   \<and> lifecycle_invariant
        (run [Scan_models, Load_model good_backend ''sd'', Unload_model good_backend ''sd'',
              Scan_models, Generate_text good_backend ''mistral-7b'' hello 10,
              Run_onnx_model failing_backend ''adder'' []]
           (fresh ''./models'' (Some example_disk)))"
proof -
  let ?ops = "[Scan_models, Load_model good_backend ''sd'', Unload_model good_backend ''sd'',
               Scan_models, Generate_text good_backend ''mistral-7b'' hello 10,
               Run_onnx_model failing_backend ''adder'' []]"
  have ok: "scans_while_unloaded ?ops (fresh ''./models'' (Some example_disk))"
    by code_simp
  have held: "has_handle (run ?ops (fresh ''./models'' (Some example_disk))) ''mistral-7b''"
    by code_simp
  show ?thesis
    using ok held lifecycle_invariant_of_reachable_states [OF ok] by blast
qed

section \<open>A load that fails\<close>

lemma load_backend_raises_iff:
  "(\<exists>s'. load_backend be n p t s = Inl s') \<longleftrightarrow> load_raises be t p"
  by (simp add: load_backend_def load_raises_def Let_def split: option.splits)

lemma load_model_fails_iff:
  assumes "map_of (available_models s) n = Some info" and "\<not> loaded info"
  shows "fst (load_model be n s) = False \<longleftrightarrow> load_raises be (mtype info) (path info)"
proof (cases "load_backend be n (path info) (mtype info) s")
  case (Inl s')
  then have "load_raises be (mtype info) (path info)"
    using load_backend_raises_iff [of be n "path info" "mtype info" s] by blast
  then show ?thesis
    using assms Inl by (simp add: load_model_def)
next
  case (Inr s')
  then have "\<not> load_raises be (mtype info) (path info)"
    using load_backend_raises_iff [of be n "path info" "mtype info" s] by auto
  then show ?thesis
    using assms Inr by (simp add: load_model_def)
qed

text \<open>
  C4. For a registered name whose flag is clear, when a library call of the load raises,
  \<open>load_model\<close> returns \<open>False\<close>: the failure is logged, the registry (path, type and
  flag of every entry) and \<open>loaded_models\<close> are as before, so a name without a handle,
  as every unloaded name is under the lifecycle invariant, still has none. A second
  \<open>load_model\<close> calls the loader again and has the result and the effect on both
  dictionaries that it would have had on the state before the failed attempt.
\<close>

theorem failed_load_changes_nothing_and_is_retried:
  assumes reg: "map_of (available_models s) name = Some info"
    and cold: "\<not> loaded info"
    and raises: "load_raises be (mtype info) (path info)"
  shows "fst (load_model be name s) = False
     \<and> map_of (available_models (snd (load_model be name s))) name = Some info
     \<and> available_models (snd (load_model be name s)) = available_models s
     \<and> loaded_models (snd (load_model be name s)) = loaded_models s
     \<and> (lifecycle_invariant s \<longrightarrow>
          map_of (loaded_models (snd (load_model be name s))) name = None)
     \<and> last (log (snd (load_model be name s))) = Error_load_failed name
     \<and> take (Suc (length (calls s))) (calls (snd (load_model be name s)))
          = calls s @ [loader_call (mtype info) (path info)]
     \<and> take (Suc (length (calls (snd (load_model be name s)))))
            (calls (snd (load_model be' name (snd (load_model be name s)))))
          = calls (snd (load_model be name s)) @ [loader_call (mtype info) (path info)]
     \<and> fst (load_model be' name (snd (load_model be name s))) = fst (load_model be' name s)
     \<and> loaded_models (snd (load_model be' name (snd (load_model be name s))))
          = loaded_models (snd (load_model be' name s))
     \<and> available_models (snd (load_model be' name (snd (load_model be name s))))
          = available_models (snd (load_model be' name s))"
proof -
  let ?s1 = "snd (load_model be name s)"
  have fail: "fst (load_model be name s) = False"
    using load_model_fails_iff [OF reg cold] raises by simp
  note f = load_model_failure [OF reg fail]
  have known: "mtype info = ''transformers'' \<or> mtype info = ''onnx''
                  \<or> mtype info = ''stable-diffusion''"
    and av: "available_models ?s1 = available_models s"
    and lo: "loaded_models ?s1 = loaded_models s"
    and lg: "last (log ?s1) = Error_load_failed name"
    and ca: "take (Suc (length (calls s))) (calls ?s1)
               = calls s @ [loader_call (mtype info) (path info)]"
    using f by blast+
  have reg1: "map_of (available_models ?s1) name = Some info"
    using reg av by simp
  have none: "map_of (loaded_models ?s1) name = None" if "lifecycle_invariant s"
  proof -
    have "\<not> loaded_flag s name"
      using reg cold by (simp add: loaded_flag_def)
    then have "\<not> has_handle s name"
      using that by (simp add: lifecycle_invariant_iff)
    then show ?thesis
      by (simp add: lo has_handle_def)
  qed
  have again: "take (Suc (length (calls ?s1))) (calls (snd (load_model be' name ?s1)))
                 = calls ?s1 @ [loader_call (mtype info) (path info)]"
    using reg1 cold known by (rule load_model_cold)
  note c = load_model_cong [OF av lo, of be' name]
  show ?thesis
    using fail reg1 av lo none lg ca again c by blast
qed

theorem failed_load_changes_nothing_and_is_retried_witness:
  "map_of (available_models example_service) ''mistral-7b''
      = Some \<lparr>path = ''./models/mistral-7b'', mtype = ''transformers'', loaded = False\<rparr>
   \<and> load_raises tokenizer_failing_backend ''transformers'' ''./models/mistral-7b''
   \<and> lifecycle_invariant example_service
   \<and> fst (load_model tokenizer_failing_backend ''mistral-7b'' example_service) = False
   \<and> map_of (loaded_models
         (snd (load_model tokenizer_failing_backend ''mistral-7b'' example_service)))
        ''mistral-7b'' = None
   \<and> available_models (snd (load_model tokenizer_failing_backend ''mistral-7b'' example_service))
       = available_models example_service
   \<and> fst (load_model good_backend ''mistral-7b''
            (snd (load_model tokenizer_failing_backend ''mistral-7b'' example_service))) = True
   \<and> map_of (available_models example_service) ''adder''
      = Some \<lparr>path = ''./models/adder.onnx'', mtype = ''onnx'', loaded = False\<rparr>
   \<and> load_raises failing_backend ''onnx'' ''./models/adder.onnx''
   \<and> fst (load_model failing_backend ''adder'' example_service) = False"
proof -
  let ?info = "\<lparr>path = ''./models/mistral-7b'', mtype = ''transformers'', loaded = False\<rparr>"
  let ?onnx = "\<lparr>path = ''./models/adder.onnx'', mtype = ''onnx'', loaded = False\<rparr>"
  let ?s1 = "snd (load_model tokenizer_failing_backend ''mistral-7b'' example_service)"
  have reg: "map_of (available_models example_service) ''mistral-7b'' = Some ?info"
    by code_simp
  have cold: "\<not> loaded ?info"
    by simp
  have raises: "load_raises tokenizer_failing_backend ''transformers'' ''./models/mistral-7b''"
    by code_simp
  have raises': "load_raises tokenizer_failing_backend (mtype ?info) (path ?info)"
    using raises by simp
  have inv: "lifecycle_invariant example_service"
    by code_simp
  have direct: "fst (load_model good_backend ''mistral-7b'' example_service) = True"
    by code_simp
  have reg_o: "map_of (available_models example_service) ''adder'' = Some ?onnx"
    by code_simp
  have cold_o: "\<not> loaded ?onnx"
    by simp
  have raises_o: "load_raises failing_backend ''onnx'' ''./models/adder.onnx''"
    by code_simp
  have raises_o': "load_raises failing_backend (mtype ?onnx) (path ?onnx)"
    using raises_o by simp
  note t = failed_load_changes_nothing_and_is_retried [OF reg cold raises', of good_backend]
  note o = failed_load_changes_nothing_and_is_retried [OF reg_o cold_o raises_o', of good_backend]
  from t have failed: "fst (load_model tokenizer_failing_backend ''mistral-7b'' example_service)
                         = False"
    by blast
  from t inv have none: "map_of (loaded_models ?s1) ''mistral-7b'' = None"
    by blast
  from t have same: "available_models ?s1 = available_models example_service"
    by blast
  from t have "fst (load_model good_backend ''mistral-7b'' ?s1)
                 = fst (load_model good_backend ''mistral-7b'' example_service)"
    by blast
  with direct have retry: "fst (load_model good_backend ''mistral-7b'' ?s1) = True"
    by simp
  from o have failed_o: "fst (load_model failing_backend ''adder'' example_service) = False"
    by blast
  show ?thesis
    using reg raises inv failed none same retry reg_o raises_o failed_o by blast
qed

section \<open>Unloading\<close>

text \<open>
  C5. \<open>unload_model\<close> on a name without a handle, loaded before or not, returns
  \<open>False\<close> and changes nothing but the log. From a state in which flags and handles
  agree and every type tag is known, after a \<open>load_model\<close> that returned \<open>True\<close> and an
  \<open>unload_model\<close> of the same name, the name is registered with a clear flag and has no
  handle, and the next \<open>generate_text\<close>, \<open>generate_image\<close> or \<open>run_onnx_model\<close> for
  it begins with a call of the loader for its type and path.
\<close>

theorem unload_then_dispatch_reloads:
  "(map_of (loaded_models s) name = None \<longrightarrow>
      unload_model be name s = (False, logger (Error_model_not_loaded name) s))
   \<and> (service_invariant s \<and> load_model bl name s = (True, sl)
        \<and> unload_model bu name sl = (r, su) \<longrightarrow>
      (\<exists>info. map_of (available_models su) name = Some info \<and> \<not> loaded info \<and>
         map_of (loaded_models su) name = None \<and>
         take (Suc (length (calls su))) (calls (snd (generate_text bd name p k su)))
           = calls su @ [loader_call (mtype info) (path info)] \<and>
         take (Suc (length (calls su))) (calls (snd (generate_image bd name p su)))
           = calls su @ [loader_call (mtype info) (path info)] \<and>
         take (Suc (length (calls su))) (calls (snd (run_onnx_model bd name ins su)))
           = calls su @ [loader_call (mtype info) (path info)]))"
proof (intro conjI impI)
  assume "map_of (loaded_models s) name = None"
  then show "unload_model be name s = (False, logger (Error_model_not_loaded name) s)"
    by (rule unload_model_absent)
next
  assume h: "service_invariant s \<and> load_model bl name s = (True, sl)
               \<and> unload_model bu name sl = (r, su)"
  then have inv: "service_invariant s"
    and ld: "fst (load_model bl name s) = True" "sl = snd (load_model bl name s)"
    and ul: "su = snd (unload_model bu name sl)"
    by simp_all
  from load_model_success [OF inv ld(1)] obtain info0 h0
    where reg1: "map_of (available_models sl) name = Some (info0\<lparr>loaded := True\<rparr>)"
      and han1: "map_of (loaded_models sl) name = Some h0"
    using ld(2) by auto
  have inv1: "service_invariant sl"
    using inv ld(2) by (simp add: load_model_invariant)
  have inv2: "service_invariant su"
    using inv1 ul by (simp add: unload_model_invariant)
  let ?info = "info0\<lparr>loaded := False\<rparr>"
  note u = unload_model_present [OF han1 reg1, of bu]
  have reg2: "map_of (available_models su) name = Some ?info"
    using u reg1 by (simp add: ul map_of_map_entry)
  have han2: "map_of (loaded_models su) name = None"
    using u by (simp add: ul delete_conv')
  have cold: "\<not> loaded ?info"
    by simp
  have known: "mtype ?info = ''transformers'' \<or> mtype ?info = ''onnx''
                 \<or> mtype ?info = ''stable-diffusion''"
    using inv2 reg2 known_types_lookup unfolding service_invariant_def by blast
  note first = load_if_absent_cold [OF han2 reg2 cold known, of bd]
  have len: "length (calls su @ [loader_call (mtype ?info) (path ?info)])
               = Suc (length (calls su))"
    by simp
  have t: "take (Suc (length (calls su))) (calls (snd (generate_text bd name p k su)))
             = calls su @ [loader_call (mtype ?info) (path ?info)]"
    using generate_text_dicts(3) first len by (rule take_prefix_trans)
  have i: "take (Suc (length (calls su))) (calls (snd (generate_image bd name p su)))
             = calls su @ [loader_call (mtype ?info) (path ?info)]"
    using generate_image_dicts(3) first len by (rule take_prefix_trans)
  have x: "take (Suc (length (calls su))) (calls (snd (run_onnx_model bd name ins su)))
             = calls su @ [loader_call (mtype ?info) (path ?info)]"
    using run_onnx_model_dicts(3) first len by (rule take_prefix_trans)
  show "\<exists>info. map_of (available_models su) name = Some info \<and> \<not> loaded info \<and>
         map_of (loaded_models su) name = None \<and>
         take (Suc (length (calls su))) (calls (snd (generate_text bd name p k su)))
           = calls su @ [loader_call (mtype info) (path info)] \<and>
         take (Suc (length (calls su))) (calls (snd (generate_image bd name p su)))
           = calls su @ [loader_call (mtype info) (path info)] \<and>
         take (Suc (length (calls su))) (calls (snd (run_onnx_model bd name ins su)))
           = calls su @ [loader_call (mtype info) (path info)]"
    using reg2 cold han2 t i x by blast
qed

theorem unload_then_dispatch_reloads_witness:
  "map_of (loaded_models example_service) ''adder'' = None
   \<and> fst (unload_model good_backend ''adder'' example_service) = False
   \<and> service_invariant example_service
   \<and> fst (load_model good_backend ''mistral-7b'' example_service) = True
   \<and> map_of (loaded_models
        (snd (unload_model good_backend ''mistral-7b''
           (snd (load_model good_backend ''mistral-7b'' example_service))))) ''mistral-7b''
       = None
   \<and> calls (snd (load_model good_backend ''mistral-7b'' example_service))
       = [AutoModelForCausalLM_from_pretrained ''./models/mistral-7b'',
          AutoTokenizer_from_pretrained ''./models/mistral-7b'']
   \<and> calls (snd (generate_text good_backend ''mistral-7b'' hello 10
        (snd (unload_model good_backend ''mistral-7b''
           (snd (load_model good_backend ''mistral-7b'' example_service))))))
       = [AutoModelForCausalLM_from_pretrained ''./models/mistral-7b'',
          AutoTokenizer_from_pretrained ''./models/mistral-7b'',
          AutoModelForCausalLM_from_pretrained ''./models/mistral-7b'',
          AutoTokenizer_from_pretrained ''./models/mistral-7b'',
          Text_generate ''mistral-7b'']"
proof -
  let ?s1 = "snd (load_model good_backend ''mistral-7b'' example_service)"
  let ?s2 = "snd (unload_model good_backend ''mistral-7b'' ?s1)"
  have absent: "map_of (loaded_models example_service) ''adder'' = None"
    by code_simp
  have inv: "service_invariant example_service"
    by code_simp
  have ld: "fst (load_model good_backend ''mistral-7b'' example_service) = True"
    by code_simp
  have c1: "calls ?s1 = [AutoModelForCausalLM_from_pretrained ''./models/mistral-7b'',
                         AutoTokenizer_from_pretrained ''./models/mistral-7b'']"
    by code_simp
  have c2: "calls (snd (generate_text good_backend ''mistral-7b'' hello 10 ?s2))
              = [AutoModelForCausalLM_from_pretrained ''./models/mistral-7b'',
                 AutoTokenizer_from_pretrained ''./models/mistral-7b'',
                 AutoModelForCausalLM_from_pretrained ''./models/mistral-7b'',
                 AutoTokenizer_from_pretrained ''./models/mistral-7b'',
                 Text_generate ''mistral-7b'']"
    by code_simp
  have l: "load_model good_backend ''mistral-7b'' example_service = (True, ?s1)"
    using ld by (metis prod.collapse)
  have u: "unload_model good_backend ''mistral-7b'' ?s1
             = (fst (unload_model good_backend ''mistral-7b'' ?s1), ?s2)"
    by simp
  note a = unload_then_dispatch_reloads
             [where s = example_service and name = "''adder''" and be = good_backend]
  note b = unload_then_dispatch_reloads
             [where s = example_service and name = "''mistral-7b''" and bl = good_backend
                and sl = ?s1 and bu = good_backend and su = ?s2
                and r = "fst (unload_model good_backend ''mistral-7b'' ?s1)"]
  from a absent have "fst (unload_model good_backend ''adder'' example_service) = False"
    by simp
  moreover from b inv l u
  have "map_of (loaded_models ?s2) ''mistral-7b'' = None"
    by blast
  ultimately show ?thesis
    using absent inv ld c1 c2 by simp
qed

section \<open>Running a tensor graph\<close>

lemma prepare_inputs_missing:
  "\<exists>n \<in> set names. map_of inputs n = None \<Longrightarrow>
     \<exists>m. prepare_inputs names inputs acc = Inl m \<and> m \<in> set names \<and> map_of inputs m = None"
proof (induction names arbitrary: acc)
  case Nil
  then show ?case by simp
next
  case (Cons a names)
  show ?case
  proof (cases "map_of inputs a")
    case None
    then show ?thesis by simp
  next
    case (Some v)
    then have "\<exists>n \<in> set names. map_of inputs n = None"
      using Cons.prems by auto
    from Cons.IH [OF this, of "AList.update a v acc"] show ?thesis
      using Some by auto
  qed
qed

lemma prepare_inputs_present:
  "\<forall>n \<in> set names. map_of inputs n \<noteq> None \<Longrightarrow>
     \<exists>x. prepare_inputs names inputs acc = Inr x \<and>
         map_of x = (\<lambda>n. if n \<in> set names then map_of inputs n else map_of acc n)"
proof (induction names arbitrary: acc)
  case Nil
  then show ?case by simp
next
  case (Cons a names)
  then obtain v where v: "map_of inputs a = Some v"
    by auto
  have "\<forall>n \<in> set names. map_of inputs n \<noteq> None"
    using Cons.prems by simp
  from Cons.IH [OF this, of "AList.update a v acc"] obtain x
    where x: "prepare_inputs names inputs (AList.update a v acc) = Inr x"
      and m: "map_of x = (\<lambda>n. if n \<in> set names then map_of inputs n
                               else map_of (AList.update a v acc) n)"
    by blast
  have "map_of x = (\<lambda>n. if n \<in> set (a # names) then map_of inputs n else map_of acc n)"
    by (rule ext) (simp add: m update_conv' v)
  then show ?case
    using x v by simp
qed

lemma prepare_outputs_enough:
  "k + length names \<le> length outs \<Longrightarrow>
     \<exists>r. prepare_outputs (enumerate k names) outs acc = Some r \<and>
         map_of r = map_of acc ++ map_of (rev (zip names (drop k outs))) \<and>
         fst ` set r = fst ` set acc \<union> set names"
proof (induction names arbitrary: k acc)
  case Nil
  then show ?case by simp
next
  case (Cons a names)
  have k: "k < length outs" and rest: "Suc k + length names \<le> length outs"
    using Cons.prems by simp_all
  from Cons.IH [OF rest, of "AList.update a (outs ! k) acc"] obtain r
    where r: "prepare_outputs (enumerate (Suc k) names) outs (AList.update a (outs ! k) acc)
                = Some r"
      and m: "map_of r = map_of (AList.update a (outs ! k) acc)
                           ++ map_of (rev (zip names (drop (Suc k) outs)))"
      and d: "fst ` set r = fst ` set (AList.update a (outs ! k) acc) \<union> set names"
    by blast
  have dr: "drop k outs = outs ! k # drop (Suc k) outs"
    using k by (simp add: Cons_nth_drop_Suc)
  have "map_of r = map_of acc ++ map_of (rev (zip (a # names) (drop k outs)))"
    by (rule ext) (simp add: m dr update_conv' map_add_def split: option.splits)
  moreover have "fst ` set r = fst ` set acc \<union> set (a # names)"
    by (auto simp: d dom_update)
  ultimately show ?case
    using r k by simp
qed

lemma map_of_rev_zip_nth:
  assumes "distinct names" and "length names \<le> length ys" and "i < length names"
  shows "map_of (rev (zip names ys)) (names ! i) = Some (ys ! i)"
proof -
  have "map fst (rev (zip names ys)) = rev names"
    using assms(2) by (simp add: rev_map [symmetric] map_fst_zip_take min_def)
  then have "distinct (map fst (rev (zip names ys)))"
    using assms(1) by simp
  moreover have "(names ! i, ys ! i) \<in> set (rev (zip names ys))"
    using assms(2,3) by (auto simp: in_set_zip)
  ultimately show ?thesis
    by simp
qed

lemma run_onnx_model_loaded:
  assumes "map_of (available_models s) name = Some info"
    and "mtype info = ''onnx''"
    and "map_of (loaded_models s) name = Some model_data"
    and "map_of model_data ''session'' = Some session"
  shows "run_onnx_model be name inputs s =
    (case prepare_inputs (session_inputs be session) inputs [] of
       Inl n \<Rightarrow> (Inr None, logger (Error_required_input_missing n) s)
     | Inr onnx_inputs \<Rightarrow>
        (case session_run be session onnx_inputs of
           None \<Rightarrow> (Inr None, logger (Error_onnx_inference_failed name)
                                (called (Session_run name) s))
         | Some outputs \<Rightarrow>
            (case prepare_outputs (enumerate 0 (session_outputs be session)) outputs [] of
               None \<Rightarrow> (Inr None, logger (Error_onnx_inference_failed name)
                                    (called (Session_run name) s))
             | Some result \<Rightarrow> (Inr (Some result), called (Session_run name) s))))"
  using assms
  by (simp add: run_onnx_model_def load_if_absent_def Let_def split: sum.splits option.splits)

text \<open>
  C9. For a name registered with type \<open>onnx\<close> whose handle holds a session:
  when the caller's map lacks one of the session's input names, \<open>run_onnx_model\<close>
  returns \<open>None\<close>, logs the first missing name and does not call the session; when every
  input name is present it calls the session once, on the caller's map restricted to the
  input names, returns \<open>None\<close> if that call raises, and otherwise, the run having
  returned a tensor for each output name, returns the dictionary that maps the output
  names to the tensors at their positions.
\<close>

theorem run_onnx_model_validates_inputs:
  assumes reg: "map_of (available_models s) name = Some info"
    and ty: "mtype info = ''onnx''"
    and han: "map_of (loaded_models s) name = Some model_data"
    and ses: "map_of model_data ''session'' = Some session"
  shows
    "((\<exists>n \<in> set (session_inputs be session). map_of inputs n = None) \<longrightarrow>
        fst (run_onnx_model be name inputs s) = Inr None \<and>
        calls (snd (run_onnx_model be name inputs s)) = calls s \<and>
        (\<exists>n \<in> set (session_inputs be session). map_of inputs n = None \<and>
           snd (run_onnx_model be name inputs s) = logger (Error_required_input_missing n) s))
     \<and> ((\<forall>n \<in> set (session_inputs be session). map_of inputs n \<noteq> None) \<longrightarrow>
        (\<exists>onnx_inputs.
           map_of onnx_inputs = map_of inputs |` set (session_inputs be session) \<and>
           calls (snd (run_onnx_model be name inputs s)) = calls s @ [Session_run name] \<and>
           (session_run be session onnx_inputs = None \<longrightarrow>
              fst (run_onnx_model be name inputs s) = Inr None) \<and>
           (\<forall>outputs.
              session_run be session onnx_inputs = Some outputs \<and>
              length (session_outputs be session) \<le> length outputs \<longrightarrow>
              (\<exists>result.
                 fst (run_onnx_model be name inputs s) = Inr (Some result) \<and>
                 fst ` set result = set (session_outputs be session) \<and>
                 map_of result = map_of (rev (zip (session_outputs be session) outputs)) \<and>
                 (distinct (session_outputs be session) \<longrightarrow>
                    (\<forall>i < length (session_outputs be session).
                       map_of result (session_outputs be session ! i)
                         = Some (outputs ! i)))))))"
proof (intro conjI impI)
  assume "\<exists>n \<in> set (session_inputs be session). map_of inputs n = None"
  from prepare_inputs_missing [OF this, of "[]"] obtain m
    where m: "prepare_inputs (session_inputs be session) inputs [] = Inl m"
      "m \<in> set (session_inputs be session)" "map_of inputs m = None"
    by blast
  have r: "run_onnx_model be name inputs s
             = (Inr None, logger (Error_required_input_missing m) s)"
    by (simp add: run_onnx_model_loaded [OF reg ty han ses] m(1))
  show "fst (run_onnx_model be name inputs s) = Inr None"
    by (simp add: r)
  show "calls (snd (run_onnx_model be name inputs s)) = calls s"
    by (simp add: r)
  show "\<exists>n \<in> set (session_inputs be session). map_of inputs n = None \<and>
          snd (run_onnx_model be name inputs s) = logger (Error_required_input_missing n) s"
    using m(2,3) r by auto
next
  assume "\<forall>n \<in> set (session_inputs be session). map_of inputs n \<noteq> None"
  from prepare_inputs_present [OF this, of "[]"] obtain x
    where x: "prepare_inputs (session_inputs be session) inputs [] = Inr x"
      and mx: "map_of x = (\<lambda>n. if n \<in> set (session_inputs be session)
                               then map_of inputs n else map_of [] n)"
    by blast
  note r = run_onnx_model_loaded [OF reg ty han ses, of be inputs]
  have restr: "map_of x = map_of inputs |` set (session_inputs be session)"
    by (rule ext) (simp add: mx restrict_map_def)
  have cl: "calls (snd (run_onnx_model be name inputs s)) = calls s @ [Session_run name]"
    by (simp add: r x split: option.splits)
  have fail: "fst (run_onnx_model be name inputs s) = Inr None"
    if "session_run be session x = None"
    by (simp add: r x that)
  have good: "\<exists>result.
                 fst (run_onnx_model be name inputs s) = Inr (Some result) \<and>
                 fst ` set result = set (session_outputs be session) \<and>
                 map_of result = map_of (rev (zip (session_outputs be session) outputs)) \<and>
                 (distinct (session_outputs be session) \<longrightarrow>
                    (\<forall>i < length (session_outputs be session).
                       map_of result (session_outputs be session ! i) = Some (outputs ! i)))"
    if run: "session_run be session x = Some outputs"
      and len: "length (session_outputs be session) \<le> length outputs"
    for outputs
  proof -
    from prepare_outputs_enough [of 0 "session_outputs be session" outputs "[]"] len
    obtain result
      where p: "prepare_outputs (enumerate 0 (session_outputs be session)) outputs []
                  = Some result"
        and m: "map_of result = map_of (rev (zip (session_outputs be session) outputs))"
        and k: "fst ` set result = set (session_outputs be session)"
      by auto
    have "fst (run_onnx_model be name inputs s) = Inr (Some result)"
      by (simp add: r x run p)
    moreover have "map_of result (session_outputs be session ! i) = Some (outputs ! i)"
      if "distinct (session_outputs be session)" "i < length (session_outputs be session)"
      for i
      using map_of_rev_zip_nth [OF that(1) len that(2)] by (simp add: m)
    ultimately show ?thesis
      using m k by blast
  qed
  show "\<exists>onnx_inputs.
           map_of onnx_inputs = map_of inputs |` set (session_inputs be session) \<and>
           calls (snd (run_onnx_model be name inputs s)) = calls s @ [Session_run name] \<and>
           (session_run be session onnx_inputs = None \<longrightarrow>
              fst (run_onnx_model be name inputs s) = Inr None) \<and>
           (\<forall>outputs.
              session_run be session onnx_inputs = Some outputs \<and>
              length (session_outputs be session) \<le> length outputs \<longrightarrow>
              (\<exists>result.
                 fst (run_onnx_model be name inputs s) = Inr (Some result) \<and>
                 fst ` set result = set (session_outputs be session) \<and>
                 map_of result = map_of (rev (zip (session_outputs be session) outputs)) \<and>
                 (distinct (session_outputs be session) \<longrightarrow>
                    (\<forall>i < length (session_outputs be session).
                       map_of result (session_outputs be session ! i)
                         = Some (outputs ! i)))))"
  proof (rule exI [of _ x], intro conjI impI allI)
    show "map_of x = map_of inputs |` set (session_inputs be session)"
      by (rule restr)
    show "calls (snd (run_onnx_model be name inputs s)) = calls s @ [Session_run name]"
      by (rule cl)
  next
    assume "session_run be session x = None"
    then show "fst (run_onnx_model be name inputs s) = Inr None"
      by (rule fail)
  next
    fix outputs
    assume "session_run be session x = Some outputs
              \<and> length (session_outputs be session) \<le> length outputs"
    then have "session_run be session x = Some outputs"
      and "length (session_outputs be session) \<le> length outputs"
      by simp_all
    then show "\<exists>result.
                 fst (run_onnx_model be name inputs s) = Inr (Some result) \<and>
                 fst ` set result = set (session_outputs be session) \<and>
                 map_of result = map_of (rev (zip (session_outputs be session) outputs)) \<and>
                 (distinct (session_outputs be session) \<longrightarrow>
                    (\<forall>i < length (session_outputs be session).
                       map_of result (session_outputs be session ! i)
                         = Some (outputs ! i)))"
      by (rule good)
  qed
qed

theorem run_onnx_model_validates_inputs_witness:
  "map_of (available_models adder_service) ''adder''
      = Some \<lparr>path = ''./models/adder.onnx'', mtype = ''onnx'', loaded = True\<rparr>
   \<and> map_of (loaded_models adder_service) ''adder''
      = Some [(''session'', ''session:./models/adder.onnx'')]
   \<and> session_inputs good_backend ''session:./models/adder.onnx'' = [''a'', ''b'']
   \<and> map_of [(''a'', ''1'')] ''b'' = None
   \<and> fst (run_onnx_model good_backend ''adder'' [(''a'', ''1'')] adder_service) = Inr None
   \<and> calls (snd (run_onnx_model good_backend ''adder'' [(''a'', ''1'')] adder_service))
      = calls adder_service
   \<and> map_of [(''a'', ''1''), (''b'', ''2''), (''c'', ''3'')] ''a'' = Some ''1''
   \<and> map_of [(''a'', ''1''), (''b'', ''2''), (''c'', ''3'')] ''b'' = Some ''2''
   \<and> calls (snd (run_onnx_model good_backend ''adder''
                    [(''a'', ''1''), (''b'', ''2''), (''c'', ''3'')] adder_service))
      = calls adder_service @ [Session_run ''adder'']
   \<and> fst (run_onnx_model good_backend ''adder''
             [(''a'', ''1''), (''b'', ''2''), (''c'', ''3'')] adder_service)
      = Inr (Some [(''sum'', ''1''), (''product'', ''2'')])"
proof -
  let ?info = "\<lparr>path = ''./models/adder.onnx'', mtype = ''onnx'', loaded = True\<rparr>"
  let ?session = "''session:./models/adder.onnx''"
  let ?few = "[(''a'', ''1'')]"
  let ?all = "[(''a'', ''1''), (''b'', ''2''), (''c'', ''3'')]"
  have reg: "map_of (available_models adder_service) ''adder'' = Some ?info"
    by code_simp
  have ty: "mtype ?info = ''onnx''"
    by simp
  have han: "map_of (loaded_models adder_service) ''adder'' = Some [(''session'', ?session)]"
    by code_simp
  have ses: "map_of [(''session'', ?session)] ''session'' = Some ?session"
    by simp
  have missing: "\<exists>n \<in> set (session_inputs good_backend ?session). map_of ?few n = None"
    by code_simp
  have present: "\<forall>n \<in> set (session_inputs good_backend ?session). map_of ?all n \<noteq> None"
    by code_simp
  have result: "fst (run_onnx_model good_backend ''adder'' ?all adder_service)
                  = Inr (Some [(''sum'', ''1''), (''product'', ''2'')])"
    by code_simp
  note few = run_onnx_model_validates_inputs [OF reg ty han ses, of good_backend ?few]
  note all = run_onnx_model_validates_inputs [OF reg ty han ses, of good_backend ?all]
  from few missing
  have rejected: "fst (run_onnx_model good_backend ''adder'' ?few adder_service) = Inr None"
    and not_run: "calls (snd (run_onnx_model good_backend ''adder'' ?few adder_service))
                    = calls adder_service"
    by blast+
  from all present
  have run: "calls (snd (run_onnx_model good_backend ''adder'' ?all adder_service))
               = calls adder_service @ [Session_run ''adder'']"
    by blast
  have names: "session_inputs good_backend ?session = [''a'', ''b'']"
    by code_simp
  have lookups: "map_of ?few ''b'' = None" "map_of ?all ''a'' = Some ''1''"
    "map_of ?all ''b'' = Some ''2''"
    by simp_all
  show ?thesis
    using reg han names lookups rejected not_run run result by blast
qed

section \<open>Loads by several callers\<close>

lemma load_model_split:
  "load_model be n s = (case load_check n s of (c, s') \<Rightarrow> load_commit be n c s')"
  by (simp add: load_model_def load_check_def load_commit_def split: option.splits)

lemma load_backend_Inr_available:
  "load_backend be n p t s = Inr s' \<Longrightarrow> available_models s' = available_models s"
  by (simp add: load_backend_def Let_def split: if_splits option.splits) auto

lemma load_model_sets_flag:
  assumes "fst (load_model be n s) = True"
  shows "\<exists>info. map_of (available_models (snd (load_model be n s))) n = Some info \<and> loaded info"
proof -
  from assms obtain info where reg: "map_of (available_models s) n = Some info"
    by (auto simp: load_model_def split: option.splits)
  show ?thesis
  proof (cases "loaded info")
    case True
    then show ?thesis
      using reg by (simp add: load_model_def)
  next
    case False
    obtain s' where lb: "load_backend be n (path info) (mtype info) s = Inr s'"
      using reg assms False by (cases "load_backend be n (path info) (mtype info) s")
        (auto simp: load_model_def)
    show ?thesis
      using reg False lb load_backend_Inr_available [OF lb]
      by (simp add: load_model_def map_of_map_entry)
  qed
qed

lemma load_model_already:
  "map_of (available_models s) n = Some info \<Longrightarrow> loaded info \<Longrightarrow>
     load_model be n s = (True, logger (Info_already_loaded n) s)"
  by (simp add: load_model_def)

lemma sequential_loads_loaded:
  "map_of (available_models s) n = Some info \<Longrightarrow> loaded info \<Longrightarrow>
     fst (sequential_loads bes n s) = replicate (length bes) True \<and>
     calls (snd (sequential_loads bes n s)) = calls s \<and>
     loaded_models (snd (sequential_loads bes n s)) = loaded_models s \<and>
     available_models (snd (sequential_loads bes n s)) = available_models s"
proof (induction bes arbitrary: s)
  case Nil
  show ?case by simp
next
  case (Cons be bes)
  let ?s1 = "logger (Info_already_loaded n) s"
  have step: "load_model be n s = (True, ?s1)"
    using Cons.prems by (rule load_model_already)
  have "map_of (available_models ?s1) n = Some info"
    using Cons.prems(1) by simp
  from Cons.IH [OF this Cons.prems(2)] show ?case
    by (simp add: step case_prod_unfold)
qed

lemma load_backend_loader_once:
  assumes "t = ''transformers'' \<or> t = ''onnx'' \<or> t = ''stable-diffusion''"
  shows "count_list (drop (length (calls s))
           (calls (case load_backend be n p t s of Inl s' \<Rightarrow> s' | Inr s' \<Rightarrow> s')))
           (loader_call t p) = 1"
  using assms
  by (elim disjE) (simp_all add: load_backend_def loader_call_def Let_def split: option.splits)

lemma load_model_cold_once:
  assumes reg: "map_of (available_models s) n = Some info"
    and cold: "\<not> loaded info"
    and known: "mtype info = ''transformers'' \<or> mtype info = ''onnx''
                  \<or> mtype info = ''stable-diffusion''"
  shows "count_list (drop (length (calls s)) (calls (snd (load_model be n s))))
           (loader_call (mtype info) (path info)) = 1"
  using load_backend_loader_once [OF known, of s be n "path info"] reg cold
  by (simp add: load_model_def split: sum.splits)

text \<open>
  C2. The claim is that simultaneous \<open>load_model\<close> calls for one cold name make one
  backend load and see one outcome. \<open>load_model\<close> is \<open>load_check\<close> followed by
  \<open>load_commit\<close> (\<open>load_model_split\<close>), and nothing orders the steps of two callers.
  When two callers of the cold \<open>adder\<close> both pass the flag test before either loads,
  the session is created twice; and when the backend fails for the second of them, the
  first sees \<open>True\<close> and the second \<open>False\<close>.
\<close>

theorem racing_loads_load_twice:
  "map_of (loaded_models example_service) ''adder'' = None
   \<and> fst (racing_loads good_backend good_backend ''adder'' example_service) = (True, True)
   \<and> calls (snd (racing_loads good_backend good_backend ''adder'' example_service))
       = [InferenceSession ''./models/adder.onnx'', InferenceSession ''./models/adder.onnx'']
   \<and> fst (racing_loads good_backend failing_backend ''adder'' example_service) = (True, False)
   \<and> calls (snd (racing_loads good_backend failing_backend ''adder'' example_service))
       = [InferenceSession ''./models/adder.onnx'', InferenceSession ''./models/adder.onnx'']"
  by code_simp

text \<open>
  C2, as the code has it. When callers run one after another and the first
  \<open>load_model\<close> returns \<open>True\<close>, every later call for that name returns \<open>True\<close>
  whatever its backend would do, makes no library call and leaves \<open>loaded_models\<close> and
  the registry as the first call left them; for a cold name of a known type the calls of
  all callers together contain the loader call once.
\<close>

theorem sequential_loads_load_once:
  assumes "fst (load_model be name s) = True"
  shows "fst (sequential_loads (be # bes) name s) = replicate (Suc (length bes)) True
     \<and> calls (snd (sequential_loads (be # bes) name s)) = calls (snd (load_model be name s))
     \<and> loaded_models (snd (sequential_loads (be # bes) name s))
          = loaded_models (snd (load_model be name s))
     \<and> available_models (snd (sequential_loads (be # bes) name s))
          = available_models (snd (load_model be name s))
     \<and> (map_of (available_models s) name = Some info \<and> \<not> loaded info \<and>
          (mtype info = ''transformers'' \<or> mtype info = ''onnx''
             \<or> mtype info = ''stable-diffusion'') \<longrightarrow>
          count_list (drop (length (calls s)) (calls (snd (sequential_loads (be # bes) name s))))
            (loader_call (mtype info) (path info)) = 1)"
proof -
  let ?s1 = "snd (load_model be name s)"
  from load_model_sets_flag [OF assms] obtain i
    where "map_of (available_models ?s1) name = Some i" "loaded i"
    by blast
  note rest = sequential_loads_loaded [OF this, of bes]
  have r: "fst (sequential_loads (be # bes) name s) = True # fst (sequential_loads bes name ?s1)"
    and st: "snd (sequential_loads (be # bes) name s) = snd (sequential_loads bes name ?s1)"
    by (simp_all add: case_prod_unfold assms)
  have results: "fst (sequential_loads (be # bes) name s) = replicate (Suc (length bes)) True"
    using rest by (simp only: r replicate_Suc)
  have cs: "calls (snd (sequential_loads (be # bes) name s)) = calls ?s1"
    and lm: "loaded_models (snd (sequential_loads (be # bes) name s)) = loaded_models ?s1"
    and am: "available_models (snd (sequential_loads (be # bes) name s)) = available_models ?s1"
    using rest by (simp_all only: st)
  have once: "count_list (drop (length (calls s)) (calls (snd (sequential_loads (be # bes) name s))))
                (loader_call (mtype info) (path info)) = 1"
    if "map_of (available_models s) name = Some info" "\<not> loaded info"
      "mtype info = ''transformers'' \<or> mtype info = ''onnx'' \<or> mtype info = ''stable-diffusion''"
    using load_model_cold_once [OF that, of be] by (simp only: cs)
  show ?thesis
    using results cs lm am once by blast
qed

theorem sequential_loads_load_once_witness:
  "fst (load_model good_backend ''adder'' example_service) = True
   \<and> map_of (available_models example_service) ''adder''
      = Some \<lparr>path = ''./models/adder.onnx'', mtype = ''onnx'', loaded = False\<rparr>
   \<and> fst (sequential_loads [good_backend, failing_backend, good_backend] ''adder''
            example_service) = [True, True, True]
   \<and> count_list
        (calls (snd (sequential_loads [good_backend, failing_backend, good_backend] ''adder''
                       example_service)))
        (InferenceSession ''./models/adder.onnx'') = 1"
proof -
  let ?info = "\<lparr>path = ''./models/adder.onnx'', mtype = ''onnx'', loaded = False\<rparr>"
  let ?bes = "[failing_backend, good_backend]"
  have first: "fst (load_model good_backend ''adder'' example_service) = True"
    by code_simp
  have reg: "map_of (available_models example_service) ''adder'' = Some ?info"
    by code_simp
  have quiet: "calls example_service = []"
    by code_simp
  have loader: "loader_call (mtype ?info) (path ?info) = InferenceSession ''./models/adder.onnx''"
    by (simp add: loader_call_def)
  note t = sequential_loads_load_once [OF first, of ?bes ?info]
  from t have results: "fst (sequential_loads (good_backend # ?bes) ''adder'' example_service)
                          = replicate (Suc (length ?bes)) True"
    by blast
  have cold: "\<not> loaded ?info"
    by simp
  have known: "mtype ?info = ''transformers'' \<or> mtype ?info = ''onnx''
                 \<or> mtype ?info = ''stable-diffusion''"
    by simp
  from t reg cold known
  have "count_list (drop (length (calls example_service))
          (calls (snd (sequential_loads (good_backend # ?bes) ''adder'' example_service))))
          (loader_call (mtype ?info) (path ?info)) = 1"
    by blast
  then have once: "count_list
          (calls (snd (sequential_loads (good_backend # ?bes) ''adder'' example_service)))
          (InferenceSession ''./models/adder.onnx'') = 1"
    by (simp only: quiet loader list.size drop_0)
  have "replicate (Suc (length ?bes)) True = [True, True, True]"
    by (simp add: numeral_2_eq_2)
  with results
  have all: "fst (sequential_loads (good_backend # ?bes) ''adder'' example_service)
               = [True, True, True]"
    by (simp only:)
  show ?thesis
    using first reg all once by blast
qed

end
